theory Spec2Isabelle
  imports Complex_Main "HOL-Library.Sublist"
begin

text \<open>
  Two chat-bot scripts are verified here: the meet command, which turns a list of
  participants into a Google Meet link, and the explain command, which looks a term up in
  the rows of a spreadsheet and answers with a markdown table, or with a random row of
  the sheet \<open>Why\<close> for the query \<open>why\<close>. Each script also serves its command on an HTTP
  path guarded by a shared token. The definitions are written from the JavaScript
  sources, quoted beside them.
\<close>

section \<open>JavaScript values and string primitives\<close>

text \<open>
  A JavaScript string is modelled as a \<^typ>\<open>string\<close>: each \<^typ>\<open>char\<close> is one code unit
  in the range 0..255 (the Latin-1 part of UTF-16), and \<^const>\<open>length\<close> counts code
  units as the \<open>length\<close> property of a JavaScript string does. A value that is either a
  string or \<open>undefined\<close> (a spreadsheet cell, an environment variable, a field of a
  request body) is a \<^typ>\<open>string option\<close>, with \<^const>\<open>None\<close> for \<open>undefined\<close>.
\<close>

type_synonym jsval = "string option"

datatype error = TypeError

text \<open>Truthiness of a string-or-undefined value: \<open>undefined\<close> and \<open>""\<close> are falsy.\<close>

definition truthy :: "jsval \<Rightarrow> bool" where
  "truthy v = (case v of None \<Rightarrow> False | Some s \<Rightarrow> s \<noteq> [])"

text \<open>The idiom \<open>v || ""\<close>.\<close>

definition orEmpty :: "jsval \<Rightarrow> string" where
  "orEmpty v = (case v of None \<Rightarrow> [] | Some s \<Rightarrow> (if s \<noteq> [] then s else []))"

text \<open>
  White space and line terminators as \<open>String.prototype.trim\<close> sees them, among the code
  units below 256: TAB, LF, VT, FF, CR, SPACE and NBSP.
\<close>

definition isWhiteSpace :: "char \<Rightarrow> bool" where
  "isWhiteSpace c = (c \<in> set [CHR 0x09, CHR 0x0A, CHR 0x0B, CHR 0x0C, CHR 0x0D, CHR 0x20, CHR 0xA0])"

definition trim :: "string \<Rightarrow> string" where
  "trim s = rev (dropWhile isWhiteSpace (rev (dropWhile isWhiteSpace s)))"

text \<open>
  \<open>toLowerCase\<close> on one code unit below 256: \<open>A\<close>..\<open>Z\<close> and the Latin-1 capitals
  0xC0..0xDE (the multiplication sign 0xD7 apart) move up by 32. \<open>toLocaleLowerCase\<close>
  is the same function in every locale without special casing rules (all but
  Turkish, Azeri and Lithuanian), which is the setting modelled here.
\<close>

definition lowerChar :: "char \<Rightarrow> char" where
  "lowerChar c =
     (let n = (of_char c :: nat)
      in if (65 \<le> n \<and> n \<le> 90) \<or> (192 \<le> n \<and> n \<le> 222 \<and> n \<noteq> 215)
         then char_of (n + 32) else c)"

definition toLowerCase :: "string \<Rightarrow> string" where
  "toLowerCase s = map lowerChar s"

text \<open>\<open>s.replace(/c/g, r)\<close> for a pattern that is the single character \<open>c\<close>.\<close>

fun replaceAll :: "char \<Rightarrow> string \<Rightarrow> string \<Rightarrow> string" where
  "replaceAll c r [] = []"
| "replaceAll c r (x # xs) = (if x = c then r @ replaceAll c r xs else x # replaceAll c r xs)"

text \<open>\<open>s.slice(0, n)\<close> for a non-negative \<open>n\<close>.\<close>

definition slice0 :: "nat \<Rightarrow> string \<Rightarrow> string" where
  "slice0 n s = take n s"

text \<open>\<open>s.split(",")\<close>: the pieces between the separators; the empty string gives one empty piece.\<close>

fun split :: "char \<Rightarrow> string \<Rightarrow> string list" where
  "split c [] = [] # []"
| "split c (x # xs) =
     (if x = c then [] # split c xs
      else (case split c xs of [] \<Rightarrow> [x] # [] | t # ts \<Rightarrow> (x # t) # ts))"

text \<open>\<open>xs.join(sep)\<close> on a list of strings.\<close>

fun join :: "string \<Rightarrow> string list \<Rightarrow> string" where
  "join sep [] = []"
| "join sep [x] = x"
| "join sep (x # y # ys) = x @ sep @ join sep (y # ys)"

section \<open>The meet command\<close>

text \<open>
  \<^verbatim>\<open>
  async function generateMeetLink(participants) {
      let participantsList = participants;
      let code = participants.replace(/@/g, "").replace(/ /g, "-").slice(0, 59);
      return "Your Meet is ready: https://g.co/meet/" + code + " " + participantsList
  }
  \<close>
\<close>

definition meetCode :: "string \<Rightarrow> string" where
  "meetCode participants = slice0 59 (replaceAll CHR '' '' ''-'' (replaceAll CHR ''@'' [] participants))"

definition generateMeetLink :: "string \<Rightarrow> string" where
  "generateMeetLink participants =
     (let participantsList = participants;
          code = meetCode participants
      in ''Your Meet is ready: https://g.co/meet/'' @ code @ '' '' @ participantsList)"

section \<open>The explain command\<close>

text \<open>
  A row fetched from a sheet is an object with the row number kept by the spreadsheet
  client (\<open>rowIndex\<close>) and one property per column header; a cell the client did not
  deliver is \<open>undefined\<close>. \<open>cell name row\<close> is the property access \<open>row.name\<close>.
\<close>

record sheetRow =
  rowIndex :: nat
  cells :: "string \<rightharpoonup> string"

definition cell :: "string \<Rightarrow> sheetRow \<Rightarrow> jsval" where
  "cell name row = cells row name"

definition usage :: string where
  "usage = ''Format: `/explain <concept>` eg. `/explain MAAS`. Add your own [here](https://docs.google.com/spreadsheets/d/1nNk4typDnOfDEYRzlEjtd58zk-aOd3_NNp6eufthZHM/edit#gid=2064544629)''"

text \<open>
  \<^verbatim>\<open>const sanitizeValue = (value) => value.replace(/[\r\n]/, "").trim();\<close>
  The pattern has no \<open>g\<close> flag, so \<open>replace\<close> removes the first match only. Calling
  a method on \<open>undefined\<close> throws a TypeError.
\<close>

definition isLineBreak :: "char \<Rightarrow> bool" where
  "isLineBreak c = (c = CHR 0x0D \<or> c = CHR 0x0A)"

fun replaceFirstLineBreak :: "string \<Rightarrow> string" where
  "replaceFirstLineBreak [] = []"
| "replaceFirstLineBreak (x # xs) = (if isLineBreak x then xs else x # replaceFirstLineBreak xs)"

definition sanitizeValue :: "jsval \<Rightarrow> error + string" where
  "sanitizeValue v = (case v of None \<Rightarrow> Inl TypeError | Some s \<Rightarrow> Inr (trim (replaceFirstLineBreak s)))"

text \<open>
  \<^verbatim>\<open>const valueIsEmpty = (value) => !value || value.toLocaleLowerCase().trim() === "n/a";\<close>
\<close>

definition valueIsEmpty :: "jsval \<Rightarrow> bool" where
  "valueIsEmpty v =
     (case v of None \<Rightarrow> True
      | Some s \<Rightarrow> (if s = [] then True else trim (toLowerCase s) = ''n/a''))"

text \<open>
  \<^verbatim>\<open>
  const formatRowToMDTable = (row) => {
    let mdTable = `| Title | Description |\n|--|--|\n`;
    const rows = [];
    rows.push([row.Explain, row.Definition]);
    if (!valueIsEmpty(row.PM)) rows.push(["PM", row.PM]);
    if (!valueIsEmpty(row.Team)) rows.push(["Team", row.Team]);
    if (!valueIsEmpty(row.Contact)) rows.push(["Contact channel", row.Contact]);
    if (!valueIsEmpty(row.Link)) rows.push(["Read more", row.Link]);
    mdTable += rows
      .map((row) => `| ${sanitizeValue(row[0])} | ${sanitizeValue(row[1])} |`)
      .join("\n");
    return mdTable;
  };
  \<close>
  \<open>tableRows\<close> is the array \<open>rows\<close> after the five pushes, \<open>formatLine\<close> the arrow
  function given to \<open>map\<close>, and \<open>mapE\<close> runs it over the array, stopping at the first
  exception.
\<close>

definition mdHeader :: string where
  "mdHeader = ''| Title | Description |\<newline>|--|--|\<newline>''"

definition tableRows :: "sheetRow \<Rightarrow> (jsval \<times> jsval) list" where
  "tableRows row =
     [(cell ''Explain'' row, cell ''Definition'' row)]
     @ (if valueIsEmpty (cell ''PM'' row) then [] else [(Some ''PM'', cell ''PM'' row)])
     @ (if valueIsEmpty (cell ''Team'' row) then [] else [(Some ''Team'', cell ''Team'' row)])
     @ (if valueIsEmpty (cell ''Contact'' row) then [] else [(Some ''Contact channel'', cell ''Contact'' row)])
     @ (if valueIsEmpty (cell ''Link'' row) then [] else [(Some ''Read more'', cell ''Link'' row)])"

definition formatLine :: "jsval \<times> jsval \<Rightarrow> error + string" where
  "formatLine r =
     (case sanitizeValue (fst r) of Inl e \<Rightarrow> Inl e
      | Inr a \<Rightarrow> (case sanitizeValue (snd r) of Inl e \<Rightarrow> Inl e
         | Inr b \<Rightarrow> Inr (''| '' @ a @ '' | '' @ b @ '' |'')))"

fun mapE :: "('a \<Rightarrow> error + 'b) \<Rightarrow> 'a list \<Rightarrow> error + 'b list" where
  "mapE f [] = Inr []"
| "mapE f (x # xs) =
     (case f x of Inl e \<Rightarrow> Inl e
      | Inr y \<Rightarrow> (case mapE f xs of Inl e \<Rightarrow> Inl e | Inr ys \<Rightarrow> Inr (y # ys)))"

definition formatRowToMDTable :: "sheetRow \<Rightarrow> error + string" where
  "formatRowToMDTable row =
     (case mapE formatLine (tableRows row) of Inl e \<Rightarrow> Inl e
      | Inr ls \<Rightarrow> Inr (mdHeader @ join ''\<newline>'' ls))"

text \<open>
  The predicate given to \<open>rows.find\<close> in the lookup branch:
  \<^verbatim>\<open>
  (row) => {
    row = row || {};
    const searchQuery = explainQuery.toLocaleLowerCase().trim();
    const explain = row.Explain || "";
    const alias = row.Alias || "";
    return (
      explain.toLowerCase().trim() === searchQuery ||
      alias.toLowerCase().trim().split(",")
        .map((e) => e.trim().toLocaleLowerCase())
        .find((keyword) => keyword == searchQuery)
    );
  }
  \<close>
  A row is an object, hence truthy, and \<open>row || {}\<close> is the row itself. The value
  returned is the left operand of \<open>||\<close> when that is \<open>true\<close>, and otherwise what the
  inner \<open>find\<close> returns: the keyword found, or \<open>undefined\<close>. The outer \<open>find\<close> takes
  the row when that value is truthy.
\<close>

definition aliasKeywords :: "sheetRow \<Rightarrow> string list" where
  "aliasKeywords row =
     (let alias = orEmpty (cell ''Alias'' row)
      in map (\<lambda>e. toLowerCase (trim e)) (split CHR '','' (trim (toLowerCase alias))))"

definition rowMatches :: "string \<Rightarrow> sheetRow \<Rightarrow> bool" where
  "rowMatches explainQuery row =
     (let searchQuery = trim (toLowerCase explainQuery);
          explain = orEmpty (cell ''Explain'' row)
      in if trim (toLowerCase explain) = searchQuery then True
         else truthy (find (\<lambda>keyword. keyword = searchQuery) (aliasKeywords row)))"

text \<open>
  A JavaScript number is an IEEE 754 double. A finite double that is not negative is
  kept as a mantissa and an exponent, and stands for \<open>mantissa * 2 ^ exponent\<close>. What
  \<open>Math.random()\<close> returns is a double that is at least 0 and less than 1: every such
  double is a mantissa below \<open>2 ^ 53\<close> with an exponent from \<open>-1074\<close> to \<open>-53\<close>, and every
  such pair is one.
\<close>

record double =
  mantissa :: nat
  exponent :: int

definition doubleValue :: "double \<Rightarrow> real" where
  "doubleValue d = real (mantissa d) * 2 powi (exponent d)"

definition isRandomResult :: "double \<Rightarrow> bool" where
  "isRandomResult d = (mantissa d < 2 ^ 53 \<and> - 1074 \<le> exponent d \<and> exponent d \<le> - 53)"

text \<open>
  The product of a double and an integer that a double holds exactly (\<open>rows.length + 1\<close>
  is at most \<open>2 ^ 32\<close>), as the multiplication of doubles gives it: the exact product
  rounded to 53 significant bits, to the nearest and on a tie to the even mantissa.
  \<open>bitLength\<close> is the number of bits of a mantissa, \<open>roundToEven m sh\<close> is \<open>m / 2 ^ sh\<close>
  rounded to an integer. A product whose mantissa has more than 53 bits is at least
  \<open>2 ^ 53 * 2 ^ -1074\<close> and far below \<open>2 ^ 1024\<close>, so the rounded result is a normal
  double and nothing overflows.
\<close>

fun bitLength :: "nat \<Rightarrow> nat" where
  "bitLength n = (if n = 0 then 0 else Suc (bitLength (n div 2)))"

declare bitLength.simps [simp del]

definition roundToEven :: "nat \<Rightarrow> nat \<Rightarrow> nat" where
  "roundToEven m sh =
     (let d = m div 2 ^ sh; r = m mod 2 ^ sh; h = 2 ^ (sh - 1)
      in if r < h then d else if h < r then d + 1 else if even d then d else d + 1)"

definition timesInteger :: "double \<Rightarrow> nat \<Rightarrow> double" where
  "timesInteger d n =
     (let m = mantissa d * n
      in if m < 2 ^ 53 then \<lparr>mantissa = m, exponent = exponent d\<rparr>
         else (let sh = bitLength m - 53
               in \<lparr>mantissa = roundToEven m sh, exponent = exponent d + int sh\<rparr>))"

text \<open>\<open>Math.floor\<close> of a double that is not negative, as a natural number.\<close>

definition mathFloor :: "double \<Rightarrow> nat" where
  "mathFloor d =
     (if 0 \<le> exponent d then mantissa d * 2 ^ nat (exponent d)
      else mantissa d div 2 ^ nat (- exponent d))"

text \<open>
  \<open>parseInt(Math.floor(Math.random() * (rows.length + 1)))\<close>, with the double that
  \<open>Math.random()\<close> returned as the argument \<open>random\<close> and \<open>rows.length\<close> as \<open>n\<close>. The
  floor is an integer below \<open>2 ^ 32\<close>, which \<open>parseInt\<close> gives back as it is.
\<close>

definition randomRowIndex :: "double \<Rightarrow> nat \<Rightarrow> nat" where
  "randomRowIndex random n = mathFloor (timesInteger random (n + 1))"

text \<open>
  \<^verbatim>\<open>
  async function fetchExplanation(explainQuery) {
    await doc.useServiceAccountAuth(googleServiceCreds);
    await doc.loadInfo();
    const sheet = doc.sheetsByTitle["Explain"];
    if (explainQuery.toLowerCase().trim() == "why") {
      const why = doc.sheetsByTitle["Why"];
      const rows = await why.getRows();
      const randomRowIndex = parseInt(Math.floor(Math.random() * (rows.length + 1)));
      const whyRandomRow = rows.find((row) => row.rowIndex == randomRowIndex);
      const display_text = whyRandomRow.why;
      return display_text;
    } else {
      const rows = await sheet.getRows();
      const row = rows.find(...);
      if (!row) return usage;
      return formatRowToMDTable(row);
    }
  }
  \<close>
  The spreadsheet is taken as loaded: \<open>whyRows\<close> and \<open>explainRows\<close> are what \<open>getRows()\<close>
  delivers for the sheets \<open>Why\<close> and \<open>Explain\<close>. The result is the returned value, or
  the exception that reading \<open>.why\<close> of \<open>undefined\<close> or a method call on \<open>undefined\<close> throws.
\<close>

definition fetchExplanation :: "double \<Rightarrow> sheetRow list \<Rightarrow> sheetRow list \<Rightarrow> string \<Rightarrow> error + jsval" where
  "fetchExplanation random whyRows explainRows explainQuery =
     (if trim (toLowerCase explainQuery) = ''why'' then
        (let rows = whyRows;
             randomIndex = randomRowIndex random (length rows)
         in case find (\<lambda>row. rowIndex row = randomIndex) rows of
              None \<Rightarrow> Inl TypeError
            | Some whyRandomRow \<Rightarrow> Inr (cell ''why'' whyRandomRow))
      else
        (let rows = explainRows
         in case find (rowMatches explainQuery) rows of
              None \<Rightarrow> Inr (Some usage)
            | Some row \<Rightarrow> (case formatRowToMDTable row of Inl e \<Rightarrow> Inl e | Inr t \<Rightarrow> Inr (Some t))))"

section \<open>Regular expressions\<close>

text \<open>
  The pattern of the help test, \<open>/^(-)*h(elp)?$/gi\<close>, is kept as a regular expression
  and run by a matcher that consumes the input one character at a time (\<open>deriv\<close> is what
  is left of a pattern after one character). Without the \<open>m\<close> flag, \<open>^\<close> and \<open>$\<close> are
  the two ends of the input, so the pattern between them has to match the whole input.
  Under the \<open>i\<close> flag two characters match when their canonical forms are equal; the
  canonical form of a character is its upper-case form (\<open>a\<close>..\<open>z\<close> and 0xE0..0xFE, the
  division sign 0xF7 apart, move down by 32; the upper-case forms of 0xB5, 0xDF and 0xFF
  lie outside the range or are not single characters, and these three are canonical as
  they are).
\<close>

datatype rx = Never | Empty | Chr char | Seq rx rx | Alt rx rx | Star rx

definition Opt :: "rx \<Rightarrow> rx" where
  "Opt r = Alt r Empty"

definition canonicalize :: "char \<Rightarrow> char" where
  "canonicalize c =
     (let n = (of_char c :: nat)
      in if (97 \<le> n \<and> n \<le> 122) \<or> (224 \<le> n \<and> n \<le> 254 \<and> n \<noteq> 247)
         then char_of (n - 32) else c)"

fun nullable :: "rx \<Rightarrow> bool" where
  "nullable Never = False"
| "nullable Empty = True"
| "nullable (Chr p) = False"
| "nullable (Seq a b) = (nullable a \<and> nullable b)"
| "nullable (Alt a b) = (nullable a \<or> nullable b)"
| "nullable (Star a) = True"

fun deriv :: "char \<Rightarrow> rx \<Rightarrow> rx" where
  "deriv c Never = Never"
| "deriv c Empty = Never"
| "deriv c (Chr p) = (if canonicalize c = canonicalize p then Empty else Never)"
| "deriv c (Seq a b) =
     (if nullable a then Alt (Seq (deriv c a) b) (deriv c b) else Seq (deriv c a) b)"
| "deriv c (Alt a b) = Alt (deriv c a) (deriv c b)"
| "deriv c (Star a) = Seq (deriv c a) (Star a)"

fun matchesWhole :: "rx \<Rightarrow> string \<Rightarrow> bool" where
  "matchesWhole r [] = nullable r"
| "matchesWhole r (c # cs) = matchesWhole (deriv c r) cs"

text \<open>\<open>(-)*h(elp)?\<close>\<close>

definition helpPattern :: rx where
  "helpPattern =
     Seq (Star (Chr CHR ''-''))
         (Seq (Chr CHR ''h'') (Opt (Seq (Chr CHR ''e'') (Seq (Chr CHR ''l'') (Chr CHR ''p'')))))"

section \<open>The HTTP handlers\<close>

text \<open>
  A request body carries the fields \<open>token\<close> and \<open>text\<close>, each a string or absent. A
  handler run yields the calls it made, in order, and the response it sent; no response
  means that the handler ended with an uncaught exception.
\<close>

record requestBody =
  body_token :: jsval
  body_text :: jsval

datatype payload = Json "(string \<times> jsval) list" | Plain string

record response =
  status :: nat
  content :: payload

datatype effect = LoggerInfo string | SpreadsheetLookup string | MeetLinkGeneration string

text \<open>
  \<^verbatim>\<open>
  robot.router.post("/hubot/explain", async function (req, res) {
    if (MATTERMOST_TOKEN_CMD_EXPLAIN != req.body.token) {
      return res.status(401).json({ error: "Unauthorized" });
    }
    const explainQuery = req.body.text;
    if (!explainQuery || explainQuery.trim().match(/^(-)*h(elp)?$/gi)) {
      return res.json({ response_type: "ephemeral", text: usage });
    }
    robot.logger.info(": " + explainQuery);
    result = await fetchExplanation(explainQuery);
    return res.json({ response_type: "ephemeral", text: result });
  });
  \<close>
  \<open>!=\<close> between two values that are strings or \<open>undefined\<close> is inequality of the
  values. \<open>SpreadsheetLookup\<close> records the call of \<open>fetchExplanation\<close>, the only place
  where the spreadsheet is contacted.
\<close>

definition postExplain ::
  "jsval \<Rightarrow> double \<Rightarrow> sheetRow list \<Rightarrow> sheetRow list \<Rightarrow> requestBody \<Rightarrow> effect list \<times> response option" where
  "postExplain MATTERMOST_TOKEN_CMD_EXPLAIN random whyRows explainRows body =
     (if MATTERMOST_TOKEN_CMD_EXPLAIN \<noteq> body_token body then
        ([], Some \<lparr>status = 401, content = Json [(''error'', Some ''Unauthorized'')]\<rparr>)
      else
        (case body_text body of
           None \<Rightarrow> ([], Some \<lparr>status = 200, content = Json [(''response_type'', Some ''ephemeral''), (''text'', Some usage)]\<rparr>)
         | Some explainQuery \<Rightarrow>
             (if explainQuery = [] \<or> matchesWhole helpPattern (trim explainQuery) then
                ([], Some \<lparr>status = 200, content = Json [(''response_type'', Some ''ephemeral''), (''text'', Some usage)]\<rparr>)
              else
                (case fetchExplanation random whyRows explainRows explainQuery of
                   Inl e \<Rightarrow> ([LoggerInfo ('': '' @ explainQuery), SpreadsheetLookup explainQuery], None)
                 | Inr result \<Rightarrow>
                     ([LoggerInfo ('': '' @ explainQuery), SpreadsheetLookup explainQuery],
                      Some \<lparr>status = 200, content = Json [(''response_type'', Some ''ephemeral''), (''text'', result)]\<rparr>)))))"

text \<open>
  \<^verbatim>\<open>
  robot.router.post("/hubot/meet", async function(req, res) {
      if (MATTERMOST_TOKEN_CMD_MEET != req.body.token) {
          res.sendStatus(401);
          return res.end("");
      }
      let result = `Create a new Meet and post the link to the current channel, format: ...`;
      if (req.body.text) {
          if (req.body.text.trim() != 'help') {
              robot.logger.info('Meet participants: ' + req.body.text);
              result = await generateMeetLink(req.body.text);
          }
      }
      res.setHeader('content-type', 'application/json');
      res.send(JSON.stringify({"response_type": "in_channel", "icon_url": "...", "text": result}));
      return res.end("");
  });
  \<close>
  \<open>sendStatus(401)\<close> sends the status with its name as the body.
\<close>

definition meetHelp :: string where
  "meetHelp = ''Create a new Meet and post the link to the current channel, format: `/meet @'' @ ''{username} [@'' @ ''{username} ...]`''"

definition postMeet :: "jsval \<Rightarrow> requestBody \<Rightarrow> effect list \<times> response option" where
  "postMeet MATTERMOST_TOKEN_CMD_MEET body =
     (if MATTERMOST_TOKEN_CMD_MEET \<noteq> body_token body then
        ([], Some \<lparr>status = 401, content = Plain ''Unauthorized''\<rparr>)
      else
        (let (effects, result) =
               (case body_text body of
                  None \<Rightarrow> ([], meetHelp)
                | Some t \<Rightarrow>
                    (if t \<noteq> [] \<and> trim t \<noteq> ''help''
                     then ([LoggerInfo (''Meet participants: '' @ t), MeetLinkGeneration t], generateMeetLink t)
                     else ([], meetHelp)))
         in (effects,
             Some \<lparr>status = 200,
                   content = Json [(''response_type'', Some ''in_channel''),
                                   (''icon_url'', Some ''https://assets.ubuntu.com/v1/fa583301-meet-bot-logo.png''),
                                   (''text'', Some result)]\<rparr>)))"

section \<open>Start of the meet script\<close>

text \<open>
  \<^verbatim>\<open>
  var MATTERMOST_TOKEN_CMD_MEET = process.env.MATTERMOST_TOKEN_CMD_MEET;
  if (!MATTERMOST_TOKEN_CMD_MEET) {
      console.log("Missing MATTERMOST_TOKEN_CMD_MEET in environment");
  }
  \<close>
  Loading the script reads the token from the environment, may print one line, and always
  goes on to export the function that registers the two handlers: \<open>Registered\<close> carries
  the lines printed and the token the handlers will compare against. \<open>Aborted\<close> is a
  start that stopped before registration.
\<close>

datatype startup = Aborted "string list" | Registered "string list" jsval

definition meetStartup :: "(string \<rightharpoonup> string) \<Rightarrow> startup" where
  "meetStartup env =
     (let MATTERMOST_TOKEN_CMD_MEET = env ''MATTERMOST_TOKEN_CMD_MEET''
      in if \<not> truthy MATTERMOST_TOKEN_CMD_MEET
         then Registered [''Missing MATTERMOST_TOKEN_CMD_MEET in environment''] MATTERMOST_TOKEN_CMD_MEET
         else Registered [] MATTERMOST_TOKEN_CMD_MEET)"

section \<open>The lines of the table\<close>

text \<open>
  The optional rows of the table, each with the label printed and the column read, in
  the order of the four \<open>if\<close> statements of \<open>formatRowToMDTable\<close>; and the line that
  the template \<open>`| ${sanitizeValue(a)} | ${sanitizeValue(b)} |`\<close> gives for two strings.
\<close>

definition optionalColumns :: "(string \<times> string) list" where
  "optionalColumns = [(''PM'', ''PM''), (''Team'', ''Team''), (''Contact channel'', ''Contact''), (''Read more'', ''Link'')]"

definition lineOf :: "string \<Rightarrow> string \<Rightarrow> string" where
  "lineOf a b = ''| '' @ trim (replaceFirstLineBreak a) @ '' | '' @ trim (replaceFirstLineBreak b) @ '' |''"

section \<open>The specification's wording\<close>

text \<open>
  The definitions of this section follow the words of the specification, not the code;
  the theorems below compare the two. A string is normalized by trimming it and putting
  it in lower case. The code lowers first and trims second.
\<close>

definition normalized :: "string \<Rightarrow> string" where
  "normalized s = toLowerCase (trim s)"

text \<open>
  The tokens of a row's alias: the normalized \<open>Alias\<close> field (an absent field counts as
  empty), split on commas, each token trimmed and lower-cased.
\<close>

definition specAliasTokens :: "sheetRow \<Rightarrow> string list" where
  "specAliasTokens row = map normalized (split CHR '','' (normalized (orEmpty (cell ''Alias'' row))))"

text \<open>
  A row matches a query when its normalized \<open>Explain\<close> field equals the normalized query
  or one of its alias tokens does.
\<close>

definition specMatches :: "string \<Rightarrow> sheetRow \<Rightarrow> bool" where
  "specMatches query row =
     (if normalized (orEmpty (cell ''Explain'' row)) = normalized query then True
      else normalized query \<in> set (specAliasTokens row))"

text \<open>The same, with an alias token counting only when it is not empty.\<close>

definition specMatchesNonEmptyToken :: "string \<Rightarrow> sheetRow \<Rightarrow> bool" where
  "specMatchesNonEmptyToken query row =
     (if normalized (orEmpty (cell ''Explain'' row)) = normalized query then True
      else (normalized query \<noteq> [] \<and> normalized query \<in> set (specAliasTokens row)))"

text \<open>
  An optional field is shown when its value is present, non-empty and, trimmed and
  lower-cased, not \<open>n/a\<close>.
\<close>

definition specIncluded :: "jsval \<Rightarrow> bool" where
  "specIncluded v = (case v of None \<Rightarrow> False | Some s \<Rightarrow> s \<noteq> [] \<and> normalized s \<noteq> ''n/a'')"

text \<open>Sanitizing as the specification words it: every line break removed, then trimmed.\<close>

definition specSanitize :: "string \<Rightarrow> string" where
  "specSanitize s = trim (filter (\<lambda>c. \<not> isLineBreak c) s)"

text \<open>The number of line breaks in a string.\<close>

definition lineBreaks :: "string \<Rightarrow> nat" where
  "lineBreaks s = length (filter isLineBreak s)"

text \<open>
  A help word: any number of leading hyphens, then \<open>h\<close> or \<open>help\<close> in any mix of
  upper and lower case. A help request is an absent or empty text, or one whose trimmed
  value is a help word.
\<close>

definition specHelpWord :: "string \<Rightarrow> bool" where
  "specHelpWord s =
     (let w = dropWhile (\<lambda>c. c = CHR ''-'') s
      in toLowerCase w = ''h'' \<or> toLowerCase w = ''help'')"

definition specHelpRequest :: "jsval \<Rightarrow> bool" where
  "specHelpRequest v = (case v of None \<Rightarrow> True | Some t \<Rightarrow> t = [] \<or> specHelpWord (trim t))"

section \<open>The language of a regular expression\<close>

inductive_set star :: "string set \<Rightarrow> string set" for A :: "string set" where
  star_nil: "[] \<in> star A"
| star_step: "u \<in> A \<Longrightarrow> v \<in> star A \<Longrightarrow> u @ v \<in> star A"

fun lang :: "rx \<Rightarrow> string set" where
  "lang Never = {}"
| "lang Empty = {[]}"
| "lang (Chr p) = {[c] | c. canonicalize c = canonicalize p}"
| "lang (Seq a b) = {u @ v | u v. u \<in> lang a \<and> v \<in> lang b}"
| "lang (Alt a b) = lang a \<union> lang b"
| "lang (Star a) = star (lang a)"

section \<open>Rounded products on a common scale\<close>

text \<open>
  For the proofs about \<open>timesInteger\<close>: the rounded product of a mantissa \<open>m\<close>, counted
  in units of the exponent of the double that was multiplied, and the numbers that a
  mantissa of 53 bits can hold on that scale.
\<close>

definition roundedScaled :: "nat \<Rightarrow> nat" where
  "roundedScaled m =
     (if m < 2 ^ 53 then m else roundToEven m (bitLength m - 53) * 2 ^ (bitLength m - 53))"

definition fits53 :: "nat \<Rightarrow> bool" where
  "fits53 t = (\<exists>k j. t = k * 2 ^ j \<and> k < 2 ^ 53)"

section \<open>Example data\<close>

definition maasRow :: sheetRow where
  "maasRow = \<lparr>rowIndex = 2,
              cells = [''Explain'' \<mapsto> ''MAAS'', ''Alias'' \<mapsto> '''', ''Definition'' \<mapsto> ''Metal as a Service'']\<rparr>"

definition jujuRow :: sheetRow where
  "jujuRow = \<lparr>rowIndex = 3,
              cells = [''Explain'' \<mapsto> '' Juju'', ''Alias'' \<mapsto> ''charms, Why'',
                       ''Definition'' \<mapsto> ''An operator framework\<newline>'', ''PM'' \<mapsto> ''N/A'',
                       ''Team'' \<mapsto> ''n/a '', ''Contact'' \<mapsto> '''', ''Link'' \<mapsto> ''0'']\<rparr>"

definition whySheet :: "sheetRow list" where
  "whySheet = [\<lparr>rowIndex = 2, cells = [''why'' \<mapsto> ''Because.'']\<rparr>,
               \<lparr>rowIndex = 3, cells = [''why'' \<mapsto> ''Why not?'']\<rparr>]"

definition noisyRow :: sheetRow where
  "noisyRow = \<lparr>rowIndex = 4,
               cells = [''Explain'' \<mapsto> ''LXD'',
                        ''Definition'' \<mapsto> ''line one\<newline>line two\<newline>line three'']\<rparr>"

text \<open>
  Two results of \<open>Math.random()\<close>: the double nearest to 0.7, which is
  \<open>6305039478318694 / 2 ^ 53\<close>, and 0.
\<close>

definition sevenTenths :: double where
  "sevenTenths = \<lparr>mantissa = 6305039478318694, exponent = - 53\<rparr>"

definition randomZero :: double where
  "randomZero = \<lparr>mantissa = 0, exponent = - 53\<rparr>"

section \<open>Properties of the string primitives\<close>

lemma replaceAll_remove: "replaceAll c [] s = filter (\<lambda>x. x \<noteq> c) s"
  by (induction s) auto

lemma replaceAll_single: "replaceAll c [d] s = map (\<lambda>x. if x = c then d else x) s"
  by (induction s) auto

text \<open>
  \<open>split\<close> always yields at least one piece, no piece holds the separator, and joining the
  pieces with the separator gives the string back.
\<close>

lemma split_not_Nil: "split c s \<noteq> []"
  by (induction s) (auto split: list.splits)

lemma join_split: "join [c] (split c s) = s"
proof (induction s)
  case Nil
  show ?case by simp
next
  case (Cons x xs)
  obtain t ts where ts: "split c xs = t # ts"
    using split_not_Nil[of c xs] by (cases "split c xs") auto
  show ?case
  proof (cases "x = c")
    case True
    with Cons ts show ?thesis by simp
  next
    case False
    with Cons ts show ?thesis by (cases ts) auto
  qed
qed

lemma split_no_separator: "\<forall>t\<in>set (split c s). c \<notin> set t"
  by (induction s) (auto split: list.splits)

lemma of_char_lt256: "(of_char c :: nat) < 256"
  by (rule order_less_le_trans[OF _ order_refl], simp)

lemma char_eq_nat: "c = d \<longleftrightarrow> (of_char c :: nat) = of_char d"
  by simp

lemma isWhiteSpace_code: "isWhiteSpace c \<longleftrightarrow> (of_char c :: nat) \<in> {9, 10, 11, 12, 13, 32, 160}"
  unfolding isWhiteSpace_def by (cases c) (auto simp: of_char_def)

lemma isWhiteSpace_lowerChar: "isWhiteSpace (lowerChar c) = isWhiteSpace c"
  using of_char_lt256[of c] by (auto simp: isWhiteSpace_code lowerChar_def Let_def)

lemma dropWhile_ws_lower:
  "dropWhile isWhiteSpace (map lowerChar s) = map lowerChar (dropWhile isWhiteSpace s)"
  by (induction s) (simp_all add: isWhiteSpace_lowerChar)

lemma trim_toLowerCase: "trim (toLowerCase s) = normalized s"
  by (simp add: trim_def toLowerCase_def normalized_def dropWhile_ws_lower rev_map)

section \<open>Drawing a row index\<close>

lemma find_None_image: "find (\<lambda>row. f row = k) rows = None \<longleftrightarrow> k \<notin> f ` set rows"
  by (auto simp: find_None_iff)

text \<open>
  A mantissa \<open>m\<close> of more than 53 bits is rounded at \<open>sh = bitLength m - 53\<close> bits, where
  \<open>2 ^ 52 * 2 ^ sh \<le> m < 2 ^ 53 * 2 ^ sh\<close>, and the rounded mantissa is within half a unit
  of \<open>m / 2 ^ sh\<close>.
\<close>

lemma bitLength_bounds: "0 < n \<Longrightarrow> 2 ^ (bitLength n - 1) \<le> n \<and> n < 2 ^ bitLength n"
proof (induction n rule: bitLength.induct)
  case (1 n)
  show ?case
  proof (cases "n div 2 = 0")
    case True
    with "1.prems" have "n = 1" by (simp add: div_eq_0_iff) 
    then show ?thesis by (simp add: bitLength.simps)
  next
    case False
    let ?b = "bitLength (n div 2)"
    from False "1.prems" "1.IH" have ih: "2 ^ (?b - 1) \<le> n div 2" "n div 2 < 2 ^ ?b"
      by simp_all
    from False have b: "0 < ?b" by (simp add: bitLength.simps[of "n div 2"])
    have bl: "bitLength n = Suc ?b" using "1.prems" by (simp add: bitLength.simps[of n])
    from b have "(2::nat) ^ ?b = 2 * 2 ^ (?b - 1)" by (cases ?b) simp_all
    with ih(1) have lo: "2 ^ ?b \<le> n" by linarith
    from ih(2) have hi: "n < 2 * 2 ^ ?b" by linarith
    show ?thesis using lo hi by (simp add: bl)
  qed
qed

lemma shift_bounds:
  assumes "2 ^ 53 \<le> m"
  shows "1 \<le> bitLength m - 53" "2 ^ 52 * 2 ^ (bitLength m - 53) \<le> m"
        "m < 2 ^ 53 * 2 ^ (bitLength m - 53)"
proof -
  have "(0::nat) < 2 ^ 53" by (rule zero_less_power) simp
  then have pos: "0 < m" using assms by (rule less_le_trans)
  note b = bitLength_bounds[OF pos]
  from assms b have "(2::nat) ^ 53 < 2 ^ bitLength m" by (meson le_less_trans)
  then have gt: "53 < bitLength m"
    by (rule power_less_imp_less_exp[rotated]) simp
  then show "1 \<le> bitLength m - 53" by simp
  from gt have e1: "bitLength m - 1 = 52 + (bitLength m - 53)"
    and e2: "bitLength m = 53 + (bitLength m - 53)" by simp_all
  from b have "2 ^ (52 + (bitLength m - 53)) \<le> m" by (simp only: e1[symmetric])
  then show "2 ^ 52 * 2 ^ (bitLength m - 53) \<le> m" by (simp only: power_add)
  from b have "m < 2 ^ (53 + (bitLength m - 53))" by (simp only: e2[symmetric])
  then show "m < 2 ^ 53 * 2 ^ (bitLength m - 53)" by (simp only: power_add)
qed

lemma roundToEven_cases:
  assumes "1 \<le> sh"
  shows "roundToEven m sh = m div 2 ^ sh
       \<or> (roundToEven m sh = m div 2 ^ sh + 1 \<and> 2 ^ (sh - 1) \<le> m mod 2 ^ sh)"
  by (auto simp: roundToEven_def Let_def)

lemma roundToEven_le:
  assumes "1 \<le> sh"
  shows "roundToEven m sh * 2 ^ sh \<le> m + 2 ^ (sh - 1)"
proof -
  from assms have B: "(2::nat) ^ sh = 2 * 2 ^ (sh - 1)" by (cases sh) simp_all
  have dm: "m div 2 ^ sh * 2 ^ sh + m mod 2 ^ sh = m" by (fact div_mult_mod_eq)
  from roundToEven_cases[OF assms, of m] show ?thesis
  proof
    assume "roundToEven m sh = m div 2 ^ sh"
    then have "roundToEven m sh * 2 ^ sh = m div 2 ^ sh * 2 ^ sh" by simp
    then show ?thesis using dm by linarith
  next
    assume a: "roundToEven m sh = m div 2 ^ sh + 1 \<and> 2 ^ (sh - 1) \<le> m mod 2 ^ sh"
    then have "roundToEven m sh * 2 ^ sh = m div 2 ^ sh * 2 ^ sh + 2 ^ sh"
      by (simp add: algebra_simps)
    with a dm B show ?thesis by linarith
  qed
qed

text \<open>
  Rounding keeps the order against every number that a mantissa of 53 bits holds: such
  a number below the exact product stays below the rounded product, and one above stays
  above.
\<close>

lemma pow2_dvd_fits:
  assumes "fits53 t" "2 ^ 52 * 2 ^ sh \<le> t"
  shows "2 ^ sh dvd t"
proof -
  from assms(1) obtain k j where t: "t = k * 2 ^ j" "k < 2 ^ 53" by (auto simp: fits53_def)
  have "(2::nat) ^ (52 + sh) \<le> k * 2 ^ j" using assms(2) t by (simp add: power_add)
  also have "\<dots> < 2 ^ 53 * 2 ^ j" using t(2) by simp
  finally have "(2::nat) ^ (52 + sh) < 2 ^ (53 + j)" by (simp add: power_add)
  then have "52 + sh < 53 + j" by (simp add: power_strict_increasing_iff)
  then have "sh \<le> j" by simp
  then have "(2::nat) ^ sh dvd 2 ^ j" by (rule le_imp_power_dvd)
  then show ?thesis unfolding t(1) by (rule dvd_mult)
qed

lemma round_mono_lower:
  assumes "1 \<le> sh" "2 ^ 52 * 2 ^ sh \<le> m" "fits53 t" "t \<le> m"
  shows "t \<le> roundToEven m sh * 2 ^ sh"
proof -
  have ge: "m div 2 ^ sh * 2 ^ sh \<le> roundToEven m sh * 2 ^ sh"
    using roundToEven_cases[OF assms(1), of m] by auto
  show ?thesis
  proof (cases "2 ^ 52 * 2 ^ sh \<le> t")
    case True
    then have "2 ^ sh dvd t" by (rule pow2_dvd_fits[OF assms(3)])
    then have "t = t div 2 ^ sh * 2 ^ sh" by simp
    moreover have "t div 2 ^ sh \<le> m div 2 ^ sh" using assms(4) by (rule div_le_mono)
    then have "t div 2 ^ sh * 2 ^ sh \<le> m div 2 ^ sh * 2 ^ sh" by (rule mult_le_mono1)
    ultimately have "t \<le> m div 2 ^ sh * 2 ^ sh"
      by simp
    with ge show ?thesis by linarith
  next
    case False
    have "(2 ^ 52 * 2 ^ sh) div 2 ^ sh \<le> m div 2 ^ sh" using assms(2) by (rule div_le_mono)
    then have "2 ^ 52 \<le> m div 2 ^ sh" by simp
    then have "2 ^ 52 * 2 ^ sh \<le> m div 2 ^ sh * 2 ^ sh" by simp
    with ge False show ?thesis by linarith
  qed
qed

lemma round_mono_upper:
  assumes "1 \<le> sh" "2 ^ 52 * 2 ^ sh \<le> m" "m < 2 ^ 53 * 2 ^ sh" "fits53 t" "m \<le> t"
  shows "roundToEven m sh * 2 ^ sh \<le> t"
proof (cases "2 ^ 53 * 2 ^ sh \<le> t")
  case True
  have "m div 2 ^ sh < 2 ^ 53" using assms(3) by (simp add: less_mult_imp_div_less)
  then have "roundToEven m sh \<le> 2 ^ 53"
    using roundToEven_cases[OF assms(1), of m] by auto
  then have "roundToEven m sh * 2 ^ sh \<le> 2 ^ 53 * 2 ^ sh" by simp
  with True show ?thesis by linarith
next
  case False
  from assms(2,5) have "2 ^ 52 * 2 ^ sh \<le> t" by linarith
  then have dvd: "2 ^ sh dvd t" by (rule pow2_dvd_fits[OF assms(4)])
  then have t: "t = t div 2 ^ sh * 2 ^ sh" by simp
  have dm: "m div 2 ^ sh * 2 ^ sh + m mod 2 ^ sh = m" by (fact div_mult_mod_eq)
  from roundToEven_cases[OF assms(1), of m] show ?thesis
  proof
    assume "roundToEven m sh = m div 2 ^ sh"
    then have "roundToEven m sh * 2 ^ sh = m div 2 ^ sh * 2 ^ sh" by simp
    then show ?thesis using dm assms(5) by linarith
  next
    assume a: "roundToEven m sh = m div 2 ^ sh + 1 \<and> 2 ^ (sh - 1) \<le> m mod 2 ^ sh"
    moreover have "(0::nat) < 2 ^ (sh - 1)" by simp
    ultimately have "0 < m mod 2 ^ sh" by linarith
    with dm have "m div 2 ^ sh * 2 ^ sh < m" by linarith
    with assms(5) t have "m div 2 ^ sh * 2 ^ sh < t div 2 ^ sh * 2 ^ sh" by linarith
    then have "m div 2 ^ sh < t div 2 ^ sh" by simp
    then have "m div 2 ^ sh + 1 \<le> t div 2 ^ sh" by simp
    then have "(m div 2 ^ sh + 1) * 2 ^ sh \<le> t div 2 ^ sh * 2 ^ sh"
      by (rule mult_le_mono1)
    with a t show ?thesis by simp
  qed
qed

lemma roundedScaled_lower:
  assumes "fits53 t" "t \<le> m"
  shows "t \<le> roundedScaled m"
proof (cases "m < 2 ^ 53")
  case True
  then show ?thesis using assms(2) by (simp add: roundedScaled_def)
next
  case False
  then have big: "2 ^ 53 \<le> m" by simp
  have "t \<le> roundToEven m (bitLength m - 53) * 2 ^ (bitLength m - 53)"
    by (rule round_mono_lower[OF shift_bounds(1,2)[OF big] assms])
  then show ?thesis using False by (simp only: roundedScaled_def if_False)
qed

lemma roundedScaled_upper:
  assumes "fits53 t" "m \<le> t"
  shows "roundedScaled m \<le> t"
proof (cases "m < 2 ^ 53")
  case True
  then show ?thesis using assms(2) by (simp add: roundedScaled_def)
next
  case False
  then have big: "2 ^ 53 \<le> m" by simp
  have "roundToEven m (bitLength m - 53) * 2 ^ (bitLength m - 53) \<le> t"
    by (rule round_mono_upper[OF shift_bounds[OF big] assms])
  then show ?thesis using False by (simp only: roundedScaled_def if_False)
qed

text \<open>
  The index drawn is the floor of the rounded product, and it is at most \<open>n\<close>. Counted
  in units of the double that is multiplied, the exact product \<open>m * (n + 1)\<close> is at least
  \<open>n + 1\<close> units below \<open>n + 1\<close>, and rounding adds at most half a unit of the rounded
  mantissa, which is less than \<open>n + 1\<close> units: the rounded product is below \<open>n + 1\<close>.
\<close>

lemma scaled_div_up: "(0::nat) < b \<Longrightarrow> x = a * b \<Longrightarrow> r * x div b = r * a"
  by (simp add: mult.assoc[symmetric])

lemma scaled_div_down: "(0::nat) < c \<Longrightarrow> b = a * c \<Longrightarrow> r * c div b = r div a"
  by simp

lemma randomRowIndex_scaled:
  assumes "exponent d = - int e"
  shows "randomRowIndex d n = roundedScaled (mantissa d * (n + 1)) div 2 ^ e"
proof (cases "mantissa d * (n + 1) < 2 ^ 53")
  case True
  then show ?thesis
    using assms by (cases "e = 0") (simp_all add: randomRowIndex_def timesInteger_def mathFloor_def roundedScaled_def)
next
  case False
  let ?m = "mantissa d * (n + 1)"
  let ?sh = "bitLength ?m - 53"
  let ?r = "roundToEven ?m ?sh"
  have t: "timesInteger d (n + 1) = \<lparr>mantissa = ?r, exponent = int ?sh - int e\<rparr>"
    using False assms by (simp add: timesInteger_def Let_def)
  have s: "roundedScaled ?m = ?r * 2 ^ ?sh"
    using False by (simp add: roundedScaled_def)
  show ?thesis
  proof (cases "e \<le> ?sh")
    case True
    then have "mathFloor \<lparr>mantissa = ?r, exponent = int ?sh - int e\<rparr> = ?r * 2 ^ (?sh - e)"
      by (simp add: mathFloor_def nat_diff_distrib')
    moreover have "?r * 2 ^ ?sh div 2 ^ e = ?r * 2 ^ (?sh - e)"
    proof (rule scaled_div_up)
      show "(0::nat) < 2 ^ e" by simp
      show "(2::nat) ^ ?sh = 2 ^ (?sh - e) * 2 ^ e"
        using True by (simp add: power_add[symmetric])
    qed
    ultimately show ?thesis by (simp only: randomRowIndex_def t s)
  next
    case False
    then have lt: "?sh < e" by simp
    then have "mathFloor \<lparr>mantissa = ?r, exponent = int ?sh - int e\<rparr> = ?r div 2 ^ (e - ?sh)"
      by (simp add: mathFloor_def nat_diff_distrib')
    moreover have "?r * 2 ^ ?sh div 2 ^ e = ?r div 2 ^ (e - ?sh)"
    proof (rule scaled_div_down)
      show "(0::nat) < 2 ^ ?sh" by simp
      show "(2::nat) ^ e = 2 ^ (e - ?sh) * 2 ^ ?sh"
        using lt by (simp add: power_add[symmetric])
    qed
    ultimately show ?thesis by (simp only: randomRowIndex_def t s)
  qed
qed

lemma random_exponent:
  assumes "isRandomResult d"
  obtains e where "exponent d = - int e" "53 \<le> e" "mantissa d < 2 ^ 53"
proof -
  from assms have "exponent d \<le> - 53" "mantissa d < 2 ^ 53" by (simp_all add: isRandomResult_def)
  then have "exponent d = - int (nat (- exponent d))" "53 \<le> nat (- exponent d)" by simp_all
  with that \<open>mantissa d < 2 ^ 53\<close> show ?thesis by blast
qed

lemma roundedScaled_bound:
  assumes "m < 2 ^ 53" "53 \<le> e" "0 < n"
  shows "roundedScaled (m * n) < n * 2 ^ e"
proof -
  from assms(1) have "m + 1 \<le> 2 ^ 53" by simp
  then have "(m + 1) * n \<le> 2 ^ 53 * n" by (rule mult_le_mono1)
  then have mn: "m * n + n \<le> 2 ^ 53 * n" by (simp add: algebra_simps)
  have "(2::nat) ^ 53 \<le> 2 ^ e" using assms(2) by (intro power_increasing) simp_all
  then have "2 ^ 53 * n \<le> 2 ^ e * n" by (rule mult_le_mono1)
  with mn have "m * n + n \<le> 2 ^ e * n" by (rule le_trans)
  then have top: "m * n + n \<le> n * 2 ^ e" by (simp only: mult.commute)
  show ?thesis
  proof (cases "m * n < 2 ^ 53")
    case True
    then have "roundedScaled (m * n) = m * n" by (simp add: roundedScaled_def)
    with top assms(3) show ?thesis by linarith
  next
    case False
    then have big: "2 ^ 53 \<le> m * n" by simp
    let ?sh = "bitLength (m * n) - 53"
    note sb = shift_bounds[OF big]
    have r: "roundedScaled (m * n) = roundToEven (m * n) ?sh * 2 ^ ?sh"
      using False by (simp only: roundedScaled_def if_False)
    have le: "roundToEven (m * n) ?sh * 2 ^ ?sh \<le> m * n + 2 ^ (?sh - 1)"
      by (rule roundToEven_le[OF sb(1)])
    have "(2::nat) ^ ?sh = 2 * 2 ^ (?sh - 1)" using sb(1) by (cases ?sh) simp_all
    then have "(2::nat) ^ 52 * 2 ^ ?sh = 2 ^ 53 * 2 ^ (?sh - 1)" by simp
    with sb(2) have "2 ^ 53 * 2 ^ (?sh - 1) \<le> m * n" by simp
    also have "m * n < 2 ^ 53 * n" using mn assms(3) by linarith
    finally have "(2::nat) ^ (?sh - 1) < n" by simp
    with le top show ?thesis unfolding r by linarith
  qed
qed

lemma randomRowIndex_le:
  assumes "isRandomResult d"
  shows "randomRowIndex d n \<le> n"
proof -
  from assms obtain e where e: "exponent d = - int e" "53 \<le> e" "mantissa d < 2 ^ 53"
    by (rule random_exponent)
  have "roundedScaled (mantissa d * (n + 1)) < (n + 1) * 2 ^ e"
    by (rule roundedScaled_bound[OF e(3) e(2)]) simp
  then have "roundedScaled (mantissa d * (n + 1)) div 2 ^ e < n + 1"
    by (simp add: less_mult_imp_div_less)
  then show ?thesis by (simp add: randomRowIndex_scaled[OF e(1)])
qed

text \<open>
  The doubles that draw \<open>k\<close>. With \<open>(k + 2) * 2 ^ j \<le> 2 ^ 53\<close> the numbers \<open>k\<close> and
  \<open>k + 1 - 2 ^ -j\<close> are held by a mantissa of 53 bits, so an exact product between them
  is rounded to a number between them, whose floor is \<open>k\<close>; and a rounded product whose
  floor is \<open>k\<close> comes from an exact product above \<open>k - 2 ^ -j\<close> and below \<open>k + 1\<close>.
\<close>

lemma fits53I: "k < 2 ^ 53 \<Longrightarrow> fits53 (k * 2 ^ j)"
  unfolding fits53_def by blast

lemma small_index:
  assumes "(k + 2) * 2 ^ j \<le> (2::nat) ^ 53"
  shows "k < 2 ^ 53" "k + 1 < 2 ^ 53" "(k + 1) * 2 ^ j - 1 < 2 ^ 53" "k * 2 ^ j - 1 < 2 ^ 53"
proof -
  have one: "(1::nat) \<le> 2 ^ j" by simp
  have "(k + 2) * 1 \<le> (k + 2) * 2 ^ j" using one by (rule mult_le_mono2)
  with assms have "k + 2 \<le> 2 ^ 53" by simp
  then show "k < 2 ^ 53" "k + 1 < 2 ^ 53" by simp_all
  have "(k + 1) * 2 ^ j \<le> (k + 2) * 2 ^ j" by (rule mult_le_mono1) simp
  with assms show "(k + 1) * 2 ^ j - 1 < 2 ^ 53" by simp
  have "k * 2 ^ j \<le> (k + 2) * 2 ^ j" by (rule mult_le_mono1) simp
  with assms show "k * 2 ^ j - 1 < 2 ^ 53" by simp
qed

lemma pow_split: "j \<le> e \<Longrightarrow> (2::nat) ^ j * 2 ^ (e - j) = 2 ^ e"
  by (simp add: power_add[symmetric])

lemma below_next:
  fixes k :: nat
  assumes "j \<le> e"
  shows "((k + 1) * 2 ^ j - 1) * 2 ^ (e - j) < (k + 1) * 2 ^ e"
proof -
  have "(k + 1) * 2 ^ j - 1 < (k + 1) * 2 ^ j" by simp
  then have "((k + 1) * 2 ^ j - 1) * 2 ^ (e - j) < (k + 1) * 2 ^ j * 2 ^ (e - j)"
    by simp
  also have "\<dots> = (k + 1) * 2 ^ e"
    using pow_split[OF assms] by (simp only: mult.assoc)
  finally show ?thesis .
qed

lemma draw_region:
  assumes "j \<le> e" "(k + 2) * 2 ^ j \<le> 2 ^ 53"
    and "k * 2 ^ e \<le> m" "m \<le> ((k + 1) * 2 ^ j - 1) * 2 ^ (e - j)"
  shows "roundedScaled m div 2 ^ e = k"
proof -
  note s = small_index[OF assms(2)]
  have "k * 2 ^ e \<le> roundedScaled m"
    by (rule roundedScaled_lower[OF fits53I[OF s(1)] assms(3)])
  then have lo: "k \<le> roundedScaled m div 2 ^ e"
    by (simp add: less_eq_div_iff_mult_less_eq)
  have "roundedScaled m \<le> ((k + 1) * 2 ^ j - 1) * 2 ^ (e - j)"
    by (rule roundedScaled_upper[OF fits53I[OF s(3)] assms(4)])
  also note below_next[OF assms(1)]
  finally have "roundedScaled m div 2 ^ e < k + 1"
    by (rule less_mult_imp_div_less)
  with lo show ?thesis by simp
qed

lemma draw_region_converse:
  assumes "j \<le> e" "(k + 2) * 2 ^ j \<le> 2 ^ 53" "roundedScaled m div 2 ^ e = k"
  shows "m < (k + 1) * 2 ^ e" "k * 2 ^ e < m + 2 ^ (e - j)"
proof -
  note s = small_index[OF assms(2)]
  show "m < (k + 1) * 2 ^ e"
  proof (rule ccontr)
    assume "\<not> m < (k + 1) * 2 ^ e"
    then have "(k + 1) * 2 ^ e \<le> m" by simp
    then have "(k + 1) * 2 ^ e \<le> roundedScaled m"
      by (rule roundedScaled_lower[OF fits53I[OF s(2)]])
    then have "k + 1 \<le> roundedScaled m div 2 ^ e"
      by (simp add: less_eq_div_iff_mult_less_eq)
    with assms(3) show False by simp
  qed
  show "k * 2 ^ e < m + 2 ^ (e - j)"
  proof (rule ccontr)
    assume "\<not> k * 2 ^ e < m + 2 ^ (e - j)"
    then have le: "m + 2 ^ (e - j) \<le> k * 2 ^ e" by simp
    have "(0::nat) < 2 ^ (e - j)" by simp
    with le have "0 < k * 2 ^ e" by linarith
    then have kpos: "0 < k" by simp
    have eq: "k * 2 ^ e = (k * 2 ^ j) * 2 ^ (e - j)"
      using pow_split[OF assms(1)] by (simp only: mult.assoc)
    have "1 \<le> k * 2 ^ j" using kpos by simp
    then have "(k * 2 ^ j - 1) * 2 ^ (e - j) + 2 ^ (e - j) = (k * 2 ^ j) * 2 ^ (e - j)"
      by (simp add: algebra_simps)
    with le eq have m: "m \<le> (k * 2 ^ j - 1) * 2 ^ (e - j)" by linarith
    have "roundedScaled m \<le> (k * 2 ^ j - 1) * 2 ^ (e - j)"
      by (rule roundedScaled_upper[OF fits53I[OF s(4)] m])
    also have "\<dots> < (k * 2 ^ j) * 2 ^ (e - j)" using kpos by simp
    also have "\<dots> = k * 2 ^ e" by (rule eq[symmetric])
    finally have "roundedScaled m div 2 ^ e < k" by (rule less_mult_imp_div_less)
    with assms(3) show False by simp
  qed
qed

lemma ceil_div:
  fixes a n :: nat
  assumes "0 < n"
  shows "a \<le> (a + n - 1) div n * n" "(a + n - 1) div n * n \<le> a + n - 1"
proof -
  have dm: "(a + n - 1) div n * n + (a + n - 1) mod n = a + n - 1" by (fact div_mult_mod_eq)
  have "(a + n - 1) mod n < n" using assms by simp
  with dm assms show "a \<le> (a + n - 1) div n * n" by linarith
  from dm show "(a + n - 1) div n * n \<le> a + n - 1" by linarith
qed

lemma value_scaled:
  assumes "exponent d = - int e"
  shows "doubleValue d * real n = real (mantissa d * n) / 2 ^ e"
  using assms by (simp add: doubleValue_def power_int_minus field_simps)

lemma top_real:
  assumes "j \<le> e"
  shows "real (((k + 1) * 2 ^ j - 1) * 2 ^ (e - j)) = (real k + 1 - 1 / 2 ^ j) * 2 ^ e"
proof -
  have "0 < (k + 1) * (2::nat) ^ j" by simp
  then have "1 \<le> (k + 1) * (2::nat) ^ j" by linarith
  then have a: "real ((k + 1) * 2 ^ j - 1) = (real k + 1) * 2 ^ j - 1"
    by (simp add: of_nat_diff algebra_simps)
  have p: "(2::real) ^ e = 2 ^ j * 2 ^ (e - j)"
    using assms by (simp add: power_add[symmetric])
  have "(real k + 1 - 1 / 2 ^ j) * (2 ^ j * 2 ^ (e - j)) = ((real k + 1) * 2 ^ j - 1) * 2 ^ (e - j)"
    by (simp add: field_simps)
  then show ?thesis by (simp only: p a of_nat_mult of_nat_power of_nat_numeral)
qed

lemma slack_real:
  assumes "j \<le> e"
  shows "real (2 ^ (e - j)) / 2 ^ e = 1 / 2 ^ j"
proof -
  have "(2::real) ^ e = 2 ^ j * 2 ^ (e - j)"
    using assms by (simp add: power_add[symmetric])
  then show ?thesis by simp
qed

lemma randomRowIndex_region:
  assumes "isRandomResult d" "j \<le> 53" "(k + 2) * 2 ^ j \<le> 2 ^ 53"
    and "real k \<le> doubleValue d * real (n + 1)"
    and "doubleValue d * real (n + 1) \<le> real k + 1 - 1 / 2 ^ j"
  shows "randomRowIndex d n = k"
proof -
  from assms(1) obtain e where e: "exponent d = - int e" "53 \<le> e" "mantissa d < 2 ^ 53"
    by (rule random_exponent)
  let ?m = "mantissa d * (n + 1)"
  have je: "j \<le> e" using assms(2) e(2) by simp
  have pos: "(0::real) < 2 ^ e" by simp
  from assms(4) have "real k \<le> real ?m / 2 ^ e" by (simp only: value_scaled[OF e(1)])
  then have "real k * 2 ^ e \<le> real ?m" using pos by (simp only: pos_le_divide_eq)
  then have "real (k * 2 ^ e) \<le> real ?m" by simp
  then have lo: "k * 2 ^ e \<le> ?m" by (simp only: of_nat_le_iff)
  from assms(5) have "real ?m / 2 ^ e \<le> real k + 1 - 1 / 2 ^ j"
    by (simp only: value_scaled[OF e(1)])
  then have "real ?m \<le> (real k + 1 - 1 / 2 ^ j) * 2 ^ e" using pos by (simp only: pos_divide_le_eq)
  then have "real ?m \<le> real (((k + 1) * 2 ^ j - 1) * 2 ^ (e - j))"
    by (simp only: top_real[OF je])
  then have hi: "?m \<le> ((k + 1) * 2 ^ j - 1) * 2 ^ (e - j)" by (simp only: of_nat_le_iff)
  show ?thesis
    unfolding randomRowIndex_scaled[OF e(1)] by (rule draw_region[OF je assms(3) lo hi])
qed

lemma randomRowIndex_preimage:
  assumes "isRandomResult d" "j \<le> 53" "(k + 2) * 2 ^ j \<le> 2 ^ 53" "randomRowIndex d n = k"
  shows "real k - 1 / 2 ^ j < doubleValue d * real (n + 1)"
    and "doubleValue d * real (n + 1) < real k + 1"
proof -
  from assms(1) obtain e where e: "exponent d = - int e" "53 \<le> e" "mantissa d < 2 ^ 53"
    by (rule random_exponent)
  let ?m = "mantissa d * (n + 1)"
  have je: "j \<le> e" using assms(2) e(2) by simp
  have pos: "(0::real) < 2 ^ e" by simp
  have r: "roundedScaled ?m div 2 ^ e = k"
    using assms(4) by (simp only: randomRowIndex_scaled[OF e(1)])
  note c = draw_region_converse[OF je assms(3) r]
  from c(1) have "real ?m < real ((k + 1) * 2 ^ e)" by (simp only: of_nat_less_iff)
  then have "real ?m < (real k + 1) * 2 ^ e"
    by (simp only: of_nat_mult of_nat_add of_nat_power of_nat_numeral of_nat_1)
  then have "real ?m / 2 ^ e < real k + 1" using pos by (simp only: pos_divide_less_eq)
  then show "doubleValue d * real (n + 1) < real k + 1" by (simp only: value_scaled[OF e(1)])
  from c(2) have "real (k * 2 ^ e) < real (?m + 2 ^ (e - j))" by (simp only: of_nat_less_iff)
  then have "real k * 2 ^ e < real ?m + real (2 ^ (e - j))" by simp
  then have "real k * 2 ^ e / 2 ^ e < (real ?m + real (2 ^ (e - j))) / 2 ^ e"
    using pos by (simp only: divide_strict_right_mono)
  then have "real k < real ?m / 2 ^ e + real (2 ^ (e - j)) / 2 ^ e"
    by (simp add: add_divide_distrib)
  then have "real k < real ?m / 2 ^ e + 1 / 2 ^ j" by (simp only: slack_real[OF je])
  then have "real k - 1 / 2 ^ j < real ?m / 2 ^ e" by linarith
  then show "real k - 1 / 2 ^ j < doubleValue d * real (n + 1)" by (simp only: value_scaled[OF e(1)])
qed

text \<open>
  Every index from 0 to \<open>n\<close> is drawn: by the least multiple of \<open>2 ^ -53\<close> that is at least
  \<open>k / (n + 1)\<close>.
\<close>

lemma randomRowIndex_attained:
  assumes "n < 2 ^ 32" "k \<le> n"
  shows "\<exists>d. isRandomResult d \<and> randomRowIndex d n = k"
proof -
  let ?a = "k * 2 ^ 53"
  let ?mant = "(?a + (n + 1) - 1) div (n + 1)"
  let ?d = "\<lparr>mantissa = ?mant, exponent = - 53\<rparr>"
  have npos: "0 < n + 1" by simp
  note cd = ceil_div[OF npos, of ?a]
  have e: "exponent ?d = - int 53" by simp
  have k2: "(k + 2) * 2 ^ 20 \<le> (2::nat) ^ 53"
  proof -
    from assms have "k + 2 \<le> 2 ^ 33" by simp
    then have "(k + 2) * 2 ^ 20 \<le> 2 ^ 33 * (2::nat) ^ 20" by (rule mult_le_mono1)
    then show ?thesis by simp
  qed
  have "?mant * (n + 1) \<le> ?a + (n + 1) - 1" by (rule cd(2))
  also have "\<dots> < (n + 1) * 2 ^ 53"
  proof -
    from assms(2) have "k * 2 ^ 53 \<le> n * 2 ^ 53" by (rule mult_le_mono1)
    moreover from assms(1) have "n < 2 ^ 53" by simp
    ultimately show ?thesis by (simp add: algebra_simps)
  qed
  finally have "?mant * (n + 1) < 2 ^ 53 * (n + 1)" by (simp only: mult.commute)
  then have mant: "?mant < 2 ^ 53"
    using mult_less_cancel2[of ?mant "n + 1" "2 ^ 53"] by blast
  then have rnd: "isRandomResult ?d" by (simp add: isRandomResult_def)
  have lo: "k * 2 ^ 53 \<le> mantissa ?d * (n + 1)" using cd(1) by simp
  have "mantissa ?d * (n + 1) \<le> ?a + (n + 1) - 1" using cd(2) by simp
  also have "\<dots> \<le> ((k + 1) * 2 ^ 20 - 1) * 2 ^ (53 - 20)"
  proof -
    have "((k + 1) * 2 ^ 20 - 1) * 2 ^ (53 - 20) = k * 2 ^ 53 + (2 ^ 53 - 2 ^ 33)"
      by (simp add: algebra_simps)
    moreover from assms(1) have "n \<le> 2 ^ 53 - 2 ^ 33" by simp
    ultimately show ?thesis by simp
  qed
  finally have hi: "mantissa ?d * (n + 1) \<le> ((k + 1) * 2 ^ 20 - 1) * 2 ^ (53 - 20)" .
  have "roundedScaled (mantissa ?d * (n + 1)) div 2 ^ 53 = k"
    by (rule draw_region[OF _ k2 lo hi]) simp
  then have "randomRowIndex ?d n = k" by (simp only: randomRowIndex_scaled[OF e])
  with rnd show ?thesis by blast
qed

text \<open>
  The double nearest to 0.7 times 10 is 7 in doubles, where the exact product is below
  7; times 3 it is \<open>2.0999999999999996\<close>.
\<close>

lemma sevenTenths_is_random: "isRandomResult sevenTenths"
  by (simp add: isRandomResult_def sevenTenths_def)

lemma randomZero_is_random: "isRandomResult randomZero"
  by (simp add: isRandomResult_def randomZero_def)

lemma sevenTenths_of_ten: "randomRowIndex sevenTenths 9 = 7 \<and> doubleValue sevenTenths * 10 < 7"
  by (simp add: randomRowIndex_def timesInteger_def mathFloor_def sevenTenths_def roundToEven_def
      bitLength.simps Let_def doubleValue_def power_int_minus)

lemma sevenTenths_of_three: "randomRowIndex sevenTenths 2 = 2"
  by (simp add: randomRowIndex_def timesInteger_def mathFloor_def sevenTenths_def roundToEven_def
      bitLength.simps Let_def)

lemma randomZero_of_three: "randomRowIndex randomZero 2 = 0"
  by (simp add: randomRowIndex_def timesInteger_def mathFloor_def randomZero_def)

lemma fetch_why:
  assumes "normalized q = ''why''"
  shows "fetchExplanation u whyRows explainRows q =
           (case find (\<lambda>row. rowIndex row = randomRowIndex u (length whyRows)) whyRows of
              None \<Rightarrow> Inl TypeError | Some r \<Rightarrow> Inr (cell ''why'' r))"
  using assms by (simp add: fetchExplanation_def trim_toLowerCase Let_def)

text \<open>
  A sheet of \<open>n\<close> rows carries at most \<open>n\<close> row indices and \<open>[0, n]\<close> has \<open>n + 1\<close> values,
  so the indices of a sheet always leave out some value of \<open>[0, n]\<close>.
\<close>

lemma uncovered_index_exists: "\<exists>v\<le>length rows. v \<notin> rowIndex ` set rows"
proof (rule ccontr)
  assume "\<not> ?thesis"
  then have "{0..length rows} \<subseteq> rowIndex ` set rows" by auto
  then have "card {0..length rows} \<le> card (rowIndex ` set rows)"
    by (intro card_mono) auto
  also have "\<dots> \<le> card (set rows)" by (rule card_image_le) simp
  also have "\<dots> \<le> length rows" by (rule card_length)
  finally show False by simp
qed

section \<open>The meet link\<close>

text \<open>
  C8: for every input string \<open>s\<close>, \<open>generateMeetLink s\<close> is exactly the fixed prefix,
  then the code, then one space, then \<open>s\<close> itself, where the code is \<open>s\<close> with every
  \<open>@\<close> removed, every space turned into a hyphen, and the result cut to its first 59
  characters. The code is therefore never longer than 59 characters, and the output ends
  with the original participants text.
\<close>

theorem generateMeetLink_spec:
  "generateMeetLink s =
     ''Your Meet is ready: https://g.co/meet/''
       @ take 59 (map (\<lambda>x. if x = CHR '' '' then CHR ''-'' else x) (filter (\<lambda>x. x \<noteq> CHR ''@'') s))
       @ '' '' @ s
   \<and> meetCode s = take 59 (map (\<lambda>x. if x = CHR '' '' then CHR ''-'' else x) (filter (\<lambda>x. x \<noteq> CHR ''@'') s))
   \<and> length (meetCode s) \<le> 59
   \<and> suffix s (generateMeetLink s)"
proof -
  have code: "meetCode s = take 59 (map (\<lambda>x. if x = CHR '' '' then CHR ''-'' else x) (filter (\<lambda>x. x \<noteq> CHR ''@'') s))"
    by (simp only: meetCode_def slice0_def replaceAll_remove replaceAll_single)
  have len: "length (meetCode s) \<le> 59"
    by (simp add: code)
  have out: "generateMeetLink s = ''Your Meet is ready: https://g.co/meet/'' @ meetCode s @ '' '' @ s"
    by (simp add: generateMeetLink_def Let_def)
  have suf: "suffix s (generateMeetLink s)"
    unfolding out suffix_def by (metis append.assoc)
  show ?thesis using code len out suf by simp
qed

text \<open>The example of the specification, \<open>"@a @b"\<close>, and an input of 100 characters.\<close>

theorem generateMeetLink_spec_witness:
  "generateMeetLink ''@a @b'' = ''Your Meet is ready: https://g.co/meet/a-b @a @b''
   \<and> suffix ''@a @b'' (generateMeetLink ''@a @b'')
   \<and> length (meetCode (replicate 100 CHR ''x'')) \<le> 59"
proof -
  have "generateMeetLink ''@a @b'' = ''Your Meet is ready: https://g.co/meet/a-b @a @b''"
    using generateMeetLink_spec[of "''@a @b''"] by simp
  moreover have "suffix ''@a @b'' (generateMeetLink ''@a @b'')"
    using generateMeetLink_spec[of "''@a @b''"] by blast
  moreover have "length (meetCode (replicate 100 CHR ''x'')) \<le> 59"
    using generateMeetLink_spec[of "replicate 100 CHR ''x''"] by blast
  ultimately show ?thesis by blast
qed

section \<open>The why mode\<close>

text \<open>
  C1: when the normalized query is \<open>why\<close>, \<open>fetchExplanation\<close> draws the index
  \<open>floor(Math.random() * (rowCount + 1))\<close> and looks for the first fetched row with that
  index: it returns the \<open>why\<close> field of that row, and if no fetched row has the drawn
  index it ends in the exception of reading a property of a missing row, not in a
  string. The index drawn lies in \<open>[0, rowCount]\<close>, the upper bound included: it is at
  most \<open>rowCount\<close>, and every value of \<open>[0, rowCount]\<close> is drawn by some double of the
  range of \<open>Math.random()\<close>. The draw is uniform up to the rounding of doubles: \<open>k\<close> is drawn
  whenever the exact product \<open>Math.random() * (rowCount + 1)\<close> lies in
  \<open>[k, k + 1 - 2^-20]\<close>, and only when it lies between \<open>k - 2^-20\<close> and \<open>k + 1\<close>. Whenever
  the row indices leave out a value of \<open>[0, rowCount]\<close>, some draw makes the operation
  fail. A JavaScript array holds fewer than \<open>2 ^ 32\<close> rows.
\<close>

theorem why_mode_draw_and_failure:
  assumes "normalized q = ''why''" and "length whyRows < 2 ^ 32"
  shows "fetchExplanation random whyRows explainRows q =
           (case find (\<lambda>row. rowIndex row = randomRowIndex random (length whyRows)) whyRows of
              None \<Rightarrow> Inl TypeError | Some row \<Rightarrow> Inr (cell ''why'' row))
       \<and> (fetchExplanation random whyRows explainRows q = Inl TypeError
            \<longleftrightarrow> randomRowIndex random (length whyRows) \<notin> rowIndex ` set whyRows)
       \<and> (isRandomResult random \<longrightarrow> randomRowIndex random (length whyRows) \<le> length whyRows)
       \<and> (\<forall>k\<le>length whyRows. \<exists>r. isRandomResult r \<and> randomRowIndex r (length whyRows) = k)
       \<and> (isRandomResult random \<and> k \<le> length whyRows
            \<and> real k \<le> doubleValue random * real (length whyRows + 1)
            \<and> doubleValue random * real (length whyRows + 1) \<le> real k + 1 - 1 / 2 ^ 20
            \<longrightarrow> randomRowIndex random (length whyRows) = k)
       \<and> (isRandomResult random \<and> randomRowIndex random (length whyRows) = k
            \<longrightarrow> real k - 1 / 2 ^ 20 < doubleValue random * real (length whyRows + 1)
              \<and> doubleValue random * real (length whyRows + 1) < real k + 1)
       \<and> ((\<exists>v\<le>length whyRows. v \<notin> rowIndex ` set whyRows) \<longrightarrow>
             (\<exists>r. isRandomResult r \<and> fetchExplanation r whyRows explainRows q = Inl TypeError))"
proof -
  let ?n = "length whyRows"
  have small: "(j + 2) * 2 ^ 20 \<le> (2::nat) ^ 53" if "j \<le> ?n" for j
  proof -
    from that assms(2) have "j + 2 \<le> 2 ^ 33" by simp
    then have "(j + 2) * 2 ^ 20 \<le> 2 ^ 33 * (2::nat) ^ 20" by (rule mult_le_mono1)
    then show ?thesis by simp
  qed
  have sel: "fetchExplanation r whyRows explainRows q =
           (case find (\<lambda>row. rowIndex row = randomRowIndex r ?n) whyRows of
              None \<Rightarrow> Inl TypeError | Some row \<Rightarrow> Inr (cell ''why'' row))" for r
    by (rule fetch_why[OF assms(1)])
  have fail: "fetchExplanation r whyRows explainRows q = Inl TypeError
            \<longleftrightarrow> randomRowIndex r ?n \<notin> rowIndex ` set whyRows" for r
    unfolding sel find_None_image[symmetric] by (simp split: option.splits)
  have bound: "isRandomResult random \<longrightarrow> randomRowIndex random ?n \<le> ?n"
    by (simp add: randomRowIndex_le)
  have all: "\<forall>k\<le>?n. \<exists>r. isRandomResult r \<and> randomRowIndex r ?n = k"
    using randomRowIndex_attained[OF assms(2)] by blast
  have region: "isRandomResult random \<and> k \<le> ?n
            \<and> real k \<le> doubleValue random * real (?n + 1)
            \<and> doubleValue random * real (?n + 1) \<le> real k + 1 - 1 / 2 ^ 20
            \<longrightarrow> randomRowIndex random ?n = k"
  proof (intro impI, elim conjE)
    assume a: "isRandomResult random" "k \<le> ?n" "real k \<le> doubleValue random * real (?n + 1)"
      "doubleValue random * real (?n + 1) \<le> real k + 1 - 1 / 2 ^ 20"
    show "randomRowIndex random ?n = k"
      by (rule randomRowIndex_region[OF a(1) _ small[OF a(2)] a(3) a(4)]) simp
  qed
  have pre: "isRandomResult random \<and> randomRowIndex random ?n = k
            \<longrightarrow> real k - 1 / 2 ^ 20 < doubleValue random * real (?n + 1)
              \<and> doubleValue random * real (?n + 1) < real k + 1"
  proof (intro impI, elim conjE)
    assume a: "isRandomResult random" "randomRowIndex random ?n = k"
    then have kn: "k \<le> ?n" using randomRowIndex_le[OF a(1), of ?n] by simp
    have j: "(20::nat) \<le> 53" by simp
    show "real k - 1 / 2 ^ 20 < doubleValue random * real (?n + 1)
              \<and> doubleValue random * real (?n + 1) < real k + 1"
      using randomRowIndex_preimage[OF a(1) j small[OF kn] a(2)] by blast
  qed
  have some: "(\<exists>v\<le>?n. v \<notin> rowIndex ` set whyRows) \<longrightarrow>
             (\<exists>r. isRandomResult r \<and> fetchExplanation r whyRows explainRows q = Inl TypeError)"
  proof
    assume "\<exists>v\<le>?n. v \<notin> rowIndex ` set whyRows"
    then obtain v where v: "v \<le> ?n" "v \<notin> rowIndex ` set whyRows" by blast
    from all v(1) obtain r where r: "isRandomResult r" "randomRowIndex r ?n = v" by blast
    from v(2) have "randomRowIndex r ?n \<notin> rowIndex ` set whyRows"
      unfolding r(2) .
    then have "fetchExplanation r whyRows explainRows q = Inl TypeError"
      by (rule iffD2[OF fail])
    with r(1) show "\<exists>r. isRandomResult r \<and> fetchExplanation r whyRows explainRows q = Inl TypeError"
      by blast
  qed
  show ?thesis
    by (intro conjI) (rule sel fail bound all region pre some)+
qed

text \<open>
  On the sheet \<open>Why\<close> of two rows, numbered 2 and 3 as the spreadsheet client numbers
  them: the double nearest to 0.7 draws the index 2 and gets the first row, and 0 draws
  the index 0, which no row has.
\<close>

theorem why_mode_draw_and_failure_witness:
  "normalized '' Why '' = ''why'' \<and> length whySheet < 2 ^ 32
   \<and> isRandomResult sevenTenths \<and> randomRowIndex sevenTenths (length whySheet) = 2
   \<and> fetchExplanation sevenTenths whySheet [maasRow] '' Why '' = Inr (Some ''Because.'')
   \<and> isRandomResult randomZero \<and> randomRowIndex randomZero (length whySheet) = 0
   \<and> 0 \<notin> rowIndex ` set whySheet
   \<and> fetchExplanation randomZero whySheet [maasRow] '' Why '' = Inl TypeError
   \<and> (\<exists>r. isRandomResult r \<and> fetchExplanation r whySheet [maasRow] '' Why '' = Inl TypeError)"
proof -
  have h: "normalized '' Why '' = ''why''"
    by code_simp
  have l: "length whySheet < 2 ^ 32" by (simp add: whySheet_def)
  have n: "length whySheet = 2" by (simp add: whySheet_def)
  have d7: "randomRowIndex sevenTenths (length whySheet) = 2"
    by (simp only: n sevenTenths_of_three)
  have d0: "randomRowIndex randomZero (length whySheet) = 0"
    by (simp only: n randomZero_of_three)
  have c: "0 \<notin> rowIndex ` set whySheet" by (simp add: whySheet_def)
  note t7 = why_mode_draw_and_failure[OF h l, of sevenTenths "[maasRow]"]
  note t0 = why_mode_draw_and_failure[OF h l, of randomZero "[maasRow]"]
  from t7 have "fetchExplanation sevenTenths whySheet [maasRow] '' Why '' =
           (case find (\<lambda>row. rowIndex row = randomRowIndex sevenTenths (length whySheet)) whySheet of
              None \<Rightarrow> Inl TypeError | Some row \<Rightarrow> Inr (cell ''why'' row))"
    by (rule conjunct1)
  then have s7: "fetchExplanation sevenTenths whySheet [maasRow] '' Why '' = Inr (Some ''Because.'')"
    unfolding d7 by (simp add: whySheet_def cell_def)
  from t0 have i0: "fetchExplanation randomZero whySheet [maasRow] '' Why '' = Inl TypeError
            \<longleftrightarrow> randomRowIndex randomZero (length whySheet) \<notin> rowIndex ` set whySheet"
    by blast
  from c have "randomRowIndex randomZero (length whySheet) \<notin> rowIndex ` set whySheet"
    unfolding d0 .
  then have f0: "fetchExplanation randomZero whySheet [maasRow] '' Why '' = Inl TypeError"
    by (rule iffD2[OF i0])
  from f0 randomZero_is_random
  have ex: "\<exists>r. isRandomResult r \<and> fetchExplanation r whySheet [maasRow] '' Why '' = Inl TypeError"
    by blast
  show ?thesis
    by (intro conjI) (rule h l sevenTenths_is_random d7 s7 randomZero_is_random d0 c f0 ex)+
qed

section \<open>The lookup\<close>

lemma aliasKeywords_spec: "aliasKeywords row = specAliasTokens row"
  by (simp add: aliasKeywords_def specAliasTokens_def Let_def trim_toLowerCase normalized_def)

lemma truthy_find_eq: "truthy (find (\<lambda>k. k = q) ks) \<longleftrightarrow> q \<noteq> [] \<and> q \<in> set ks"
  by (induction ks) (auto simp: truthy_def)

lemma rowMatches_spec: "rowMatches q row = specMatchesNonEmptyToken q row"
  by (simp add: rowMatches_def specMatchesNonEmptyToken_def Let_def trim_toLowerCase
      truthy_find_eq aliasKeywords_spec)

lemma find_first:
  assumes "rows = pre @ r # post" "\<forall>x\<in>set pre. \<not> P x" "P r"
  shows "find P rows = Some r"
  using assms(2) unfolding assms(1) by (induction pre) (simp_all add: assms(3))

lemma fetch_lookup:
  assumes "normalized q \<noteq> ''why''"
  shows "fetchExplanation u whyRows rows q =
           (case find (rowMatches q) rows of
              None \<Rightarrow> Inr (Some usage)
            | Some row \<Rightarrow> (case formatRowToMDTable row of Inl e \<Rightarrow> Inl e | Inr t \<Rightarrow> Inr (Some t)))"
  using assms by (simp add: fetchExplanation_def trim_toLowerCase Let_def)

text \<open>
  C2, as amended: for every query whose normalized form is not \<open>why\<close> and every row
  list, \<open>fetchExplanation\<close> returns the formatting of the first row, in fetched order,
  whose normalized \<open>Explain\<close> field equals the normalized query or whose alias tokens
  (the normalized \<open>Alias\<close> field split on commas, each token trimmed and lower-cased)
  contain a token that is not empty and equals the normalized query; if no row matches
  in this sense, it returns the usage string verbatim. The formatting of a row is what
  \<open>formatRowToMDTable\<close> yields for it, the exception included when the row lacks a cell.
\<close>

theorem lookup_first_match_or_usage:
  assumes "normalized q \<noteq> ''why''"
  shows "((\<forall>r\<in>set rows. \<not> specMatchesNonEmptyToken q r) \<longrightarrow>
            fetchExplanation u whyRows rows q = Inr (Some usage))
       \<and> (\<forall>pre r post. rows = pre @ r # post \<and> (\<forall>x\<in>set pre. \<not> specMatchesNonEmptyToken q x)
              \<and> specMatchesNonEmptyToken q r \<longrightarrow>
            fetchExplanation u whyRows rows q =
              (case formatRowToMDTable r of Inl e \<Rightarrow> Inl e | Inr t \<Rightarrow> Inr (Some t)))"
proof (intro conjI allI impI)
  assume "\<forall>r\<in>set rows. \<not> specMatchesNonEmptyToken q r"
  then have "find (rowMatches q) rows = None"
    by (simp add: find_None_iff rowMatches_spec)
  then show "fetchExplanation u whyRows rows q = Inr (Some usage)"
    by (simp add: fetch_lookup[OF assms])
next
  fix pre r post
  assume a: "rows = pre @ r # post \<and> (\<forall>x\<in>set pre. \<not> specMatchesNonEmptyToken q x)
              \<and> specMatchesNonEmptyToken q r"
  then have "find (rowMatches q) rows = Some r"
    by (intro find_first[of rows pre r post]) (simp_all add: rowMatches_spec)
  then show "fetchExplanation u whyRows rows q =
              (case formatRowToMDTable r of Inl e \<Rightarrow> Inl e | Inr t \<Rightarrow> Inr (Some t))"
    by (simp add: fetch_lookup[OF assms])
qed

text \<open>
  C2 as stated lets an empty alias token match. The blank query \<open>" "\<close> is not \<open>why\<close>,
  and the row \<open>maasRow\<close>, whose \<open>Alias\<close> is empty, matches it by the claim's wording (the
  one token of its alias is the empty string, which is the normalized query). The claim
  asks for the table of that row; the code returns the usage string, since the inner
  \<open>find\<close> hands back the keyword found, the empty string, which is falsy. The blank
  query reaches the lookup through the HTTP handler, for which it is no help request.
\<close>

theorem lookup_blank_query_counterexample:
  "normalized '' '' \<noteq> ''why''
   \<and> specMatches '' '' maasRow
   \<and> formatRowToMDTable maasRow = Inr ''| Title | Description |\<newline>|--|--|\<newline>| MAAS | Metal as a Service |''
   \<and> fetchExplanation randomZero [] [maasRow] '' '' = Inr (Some usage)
   \<and> usage \<noteq> ''| Title | Description |\<newline>|--|--|\<newline>| MAAS | Metal as a Service |''
   \<and> fst (postExplain (Some ''s3cret'') randomZero [] [maasRow] \<lparr>body_token = Some ''s3cret'', body_text = Some '' ''\<rparr>)
        = [LoggerInfo '':  '', SpreadsheetLookup '' '']"
proof (intro conjI)
  show "fst (postExplain (Some ''s3cret'') randomZero [] [maasRow] \<lparr>body_token = Some ''s3cret'', body_text = Some '' ''\<rparr>)
        = [LoggerInfo '':  '', SpreadsheetLookup '' '']"
    by code_simp
  show "normalized '' '' \<noteq> ''why''" by code_simp
  show "specMatches '' '' maasRow" by code_simp
  show "formatRowToMDTable maasRow = Inr ''| Title | Description |\<newline>|--|--|\<newline>| MAAS | Metal as a Service |''"
    by code_simp
  show "fetchExplanation randomZero [] [maasRow] '' '' = Inr (Some usage)"
    by code_simp
  show "usage \<noteq> ''| Title | Description |\<newline>|--|--|\<newline>| MAAS | Metal as a Service |''"
    by (simp add: usage_def)
qed

text \<open>The amended claim at two queries on a sheet of two rows: an alias of the second row, and a miss.\<close>

theorem lookup_first_match_or_usage_witness:
  "normalized ''Charms'' \<noteq> ''why''
   \<and> \<not> specMatchesNonEmptyToken ''Charms'' maasRow
   \<and> specMatchesNonEmptyToken ''Charms'' jujuRow
   \<and> fetchExplanation randomZero [] [maasRow, jujuRow] ''Charms'' =
       Inr (Some ''| Title | Description |\<newline>|--|--|\<newline>| Juju | An operator framework |\<newline>| Read more | 0 |'')
   \<and> normalized ''lxd'' \<noteq> ''why''
   \<and> \<not> specMatchesNonEmptyToken ''lxd'' maasRow
   \<and> \<not> specMatchesNonEmptyToken ''lxd'' jujuRow
   \<and> fetchExplanation randomZero [] [maasRow, jujuRow] ''lxd'' = Inr (Some usage)"
proof -
  have h: "normalized ''Charms'' \<noteq> ''why''" by code_simp
  have h2: "normalized ''lxd'' \<noteq> ''why''" by code_simp
  have m1: "\<not> specMatchesNonEmptyToken ''Charms'' maasRow" by code_simp
  have m2: "specMatchesNonEmptyToken ''Charms'' jujuRow" by code_simp
  have n1: "\<not> specMatchesNonEmptyToken ''lxd'' maasRow" by code_simp
  have n2: "\<not> specMatchesNonEmptyToken ''lxd'' jujuRow" by code_simp
  have f: "formatRowToMDTable jujuRow =
      Inr ''| Title | Description |\<newline>|--|--|\<newline>| Juju | An operator framework |\<newline>| Read more | 0 |''"
    by code_simp
  have split: "[maasRow, jujuRow] = [maasRow] @ jujuRow # []" by simp
  from lookup_first_match_or_usage[OF h, of "[maasRow, jujuRow]" randomZero "[]"] m1 m2 split
  have "fetchExplanation randomZero [] [maasRow, jujuRow] ''Charms'' =
          (case formatRowToMDTable jujuRow of Inl e \<Rightarrow> Inl e | Inr t \<Rightarrow> Inr (Some t))"
    by (metis empty_iff empty_set set_ConsD)
  then have a: "fetchExplanation randomZero [] [maasRow, jujuRow] ''Charms'' =
       Inr (Some ''| Title | Description |\<newline>|--|--|\<newline>| Juju | An operator framework |\<newline>| Read more | 0 |'')"
    by (simp only: f sum.case)
  from lookup_first_match_or_usage[OF h2, of "[maasRow, jujuRow]" randomZero "[]"] n1 n2
  have b: "fetchExplanation randomZero [] [maasRow, jujuRow] ''lxd'' = Inr (Some usage)"
    by simp
  show ?thesis
    by (intro conjI) (rule h m1 m2 a h2 n1 n2 b)+
qed

section \<open>The table of a matched row\<close>

lemma valueIsEmpty_spec: "valueIsEmpty v = (\<not> specIncluded v)"
  by (cases v) (simp_all add: valueIsEmpty_def specIncluded_def trim_toLowerCase)

lemma tableRows_spec:
  "tableRows r = (cell ''Explain'' r, cell ''Definition'' r)
       # map (\<lambda>(label, name). (Some label, cell name r))
             (filter (\<lambda>(label, name). specIncluded (cell name r)) optionalColumns)"
  by (simp add: tableRows_def optionalColumns_def valueIsEmpty_spec)

lemma formatLine_Some: "formatLine (Some a, Some b) = Inr (lineOf a b)"
  by (simp add: formatLine_def sanitizeValue_def lineOf_def)

lemma mapE_total:
  assumes "\<forall>x\<in>set xs. f x = Inr (g x)"
  shows "mapE f xs = Inr (map g xs)"
  using assms by (induction xs) simp_all

lemma specIncluded_orEmpty: "specIncluded v \<Longrightarrow> v = Some (orEmpty v)"
  by (cases v) (simp_all add: specIncluded_def orEmpty_def)

lemma optional_lines:
  "mapE formatLine (map (\<lambda>(label, name). (Some label, cell name r))
             (filter (\<lambda>(label, name). specIncluded (cell name r)) cols))
   = Inr (map (\<lambda>(label, name). lineOf label (orEmpty (cell name r)))
             (filter (\<lambda>(label, name). specIncluded (cell name r)) cols))"
proof (induction cols)
  case Nil
  show ?case by simp
next
  case (Cons c cols)
  obtain label name where c: "c = (label, name)" by (cases c)
  show ?case
  proof (cases "specIncluded (cell name r)")
    case True
    then have "formatLine (Some label, cell name r) = Inr (lineOf label (orEmpty (cell name r)))"
      using specIncluded_orEmpty[OF True] formatLine_Some[of label "orEmpty (cell name r)"] by simp
    then show ?thesis using Cons True by (simp add: c)
  next
    case False
    then show ?thesis using Cons by (simp add: c)
  qed
qed

lemma format_defined:
  assumes "cell ''Explain'' r = Some e" "cell ''Definition'' r = Some d"
  shows "formatRowToMDTable r =
           Inr (mdHeader @ join ''\<newline>''
                  (lineOf e d # map (\<lambda>(label, name). lineOf label (orEmpty (cell name r)))
                                    (filter (\<lambda>(label, name). specIncluded (cell name r)) optionalColumns)))"
  by (simp add: formatRowToMDTable_def tableRows_spec assms formatLine_Some optional_lines)

lemma join_Cons: "join sep (x # xs) = x @ concat (map (\<lambda>l. sep @ l) xs)"
  by (induction xs arbitrary: x) simp_all

lemma concat_lines_head:
  "concat (map (\<lambda>l. ''\<newline>'' @ l) ls) = [] \<or> hd (concat (map (\<lambda>l. ''\<newline>'' @ l) ls)) = CHR ''\<newline>''"
  by (cases ls) simp_all

lemma specMatches_weaken: "specMatchesNonEmptyToken q r \<Longrightarrow> specMatches q r"
  by (auto simp: specMatchesNonEmptyToken_def specMatches_def split: if_splits)

lemma replaceFirstLineBreak_all:
  "lineBreaks s \<le> 1 \<Longrightarrow> replaceFirstLineBreak s = filter (\<lambda>c. \<not> isLineBreak c) s"
proof (induction s)
  case Nil
  show ?case by simp
next
  case (Cons x xs)
  show ?case
  proof (cases "isLineBreak x")
    case True
    with Cons.prems have "filter isLineBreak xs = []" by (simp add: lineBreaks_def)
    then have "filter (\<lambda>c. \<not> isLineBreak c) xs = xs"
      by (simp add: filter_empty_conv filter_id_conv)
    with True show ?thesis by simp
  next
    case False
    with Cons show ?thesis by (simp add: lineBreaks_def)
  qed
qed

lemma lineOf_spec:
  "lineBreaks a \<le> 1 \<Longrightarrow> lineBreaks b \<le> 1 \<Longrightarrow>
   lineOf a b = ''| '' @ specSanitize a @ '' | '' @ specSanitize b @ '' |''"
  by (simp add: lineOf_def specSanitize_def replaceFirstLineBreak_all)

text \<open>
  C3, as amended: for every query whose normalized form is not \<open>why\<close> and that equals,
  normalized, the normalized \<open>Explain\<close> field of some row, there is a first matching row;
  when that row has its \<open>Explain\<close> and \<open>Definition\<close> cells and neither holds more than
  one line break, \<open>fetchExplanation\<close> returns a markdown table that starts with exactly
  the header \<open>| Title | Description |\<close> and the separator \<open>|--|--|\<close>, each on a line of
  its own, followed by the first data row made of the row's \<open>Explain\<close> and \<open>Definition\<close>
  values, with line breaks removed and trimmed; what follows is empty or starts on a new
  line.
\<close>

theorem explain_match_gives_table:
  assumes "normalized q \<noteq> ''why''"
    and "\<exists>r\<in>set rows. normalized (orEmpty (cell ''Explain'' r)) = normalized q"
  shows "\<exists>pre r post. rows = pre @ r # post
           \<and> (\<forall>x\<in>set pre. \<not> specMatchesNonEmptyToken q x) \<and> specMatchesNonEmptyToken q r
           \<and> (\<forall>e d. cell ''Explain'' r = Some e \<and> cell ''Definition'' r = Some d
                    \<and> lineBreaks e \<le> 1 \<and> lineBreaks d \<le> 1 \<longrightarrow>
                (\<exists>rest. fetchExplanation u whyRows rows q =
                           Inr (Some (''| Title | Description |\<newline>|--|--|\<newline>''
                                      @ ''| '' @ specSanitize e @ '' | '' @ specSanitize d @ '' |'' @ rest))
                       \<and> (rest = [] \<or> hd rest = CHR ''\<newline>'')))"
proof -
  from assms(2) have "\<exists>r\<in>set rows. specMatchesNonEmptyToken q r"
    by (auto simp: specMatchesNonEmptyToken_def)
  then obtain pre r post where dec: "rows = pre @ r # post" "specMatchesNonEmptyToken q r"
      "\<forall>x\<in>set pre. \<not> specMatchesNonEmptyToken q x"
    using split_list_first_prop[of rows "specMatchesNonEmptyToken q"] by blast
  then have found: "find (rowMatches q) rows = Some r"
    by (intro find_first[of rows pre r post]) (simp_all add: rowMatches_spec)
  have "\<exists>rest. fetchExplanation u whyRows rows q =
                  Inr (Some (''| Title | Description |\<newline>|--|--|\<newline>''
                             @ ''| '' @ specSanitize e @ '' | '' @ specSanitize d @ '' |'' @ rest))
              \<and> (rest = [] \<or> hd rest = CHR ''\<newline>'')"
    if ed: "cell ''Explain'' r = Some e \<and> cell ''Definition'' r = Some d
              \<and> lineBreaks e \<le> 1 \<and> lineBreaks d \<le> 1" for e d
  proof -
    let ?ls = "map (\<lambda>(label, name). lineOf label (orEmpty (cell name r)))
                 (filter (\<lambda>(label, name). specIncluded (cell name r)) optionalColumns)"
    let ?rest = "concat (map (\<lambda>l. ''\<newline>'' @ l) ?ls)"
    have "fetchExplanation u whyRows rows q = Inr (Some (mdHeader @ lineOf e d @ ?rest))"
      using ed by (simp add: fetch_lookup[OF assms(1)] found format_defined join_Cons)
    moreover have "lineOf e d = ''| '' @ specSanitize e @ '' | '' @ specSanitize d @ '' |''"
      using ed by (simp only: lineOf_spec)
    ultimately have "fetchExplanation u whyRows rows q =
        Inr (Some (''| Title | Description |\<newline>|--|--|\<newline>''
                   @ ''| '' @ specSanitize e @ '' | '' @ specSanitize d @ '' |'' @ ?rest))"
      by (simp add: mdHeader_def)
    with concat_lines_head[of ?ls] show ?thesis by blast
  qed
  with dec show ?thesis by blast
qed

text \<open>
  C3 as stated names the header \<open>| Explain | Definition |\<close>. The query \<open>" maas"\<close>
  matches the \<open>Explain\<close> field of \<open>maasRow\<close>, and the table returned does not start with
  that header: the code prints \<open>| Title | Description |\<close>.
\<close>

theorem explain_header_counterexample:
  "normalized '' maas'' = normalized (orEmpty (cell ''Explain'' maasRow))
   \<and> fetchExplanation randomZero [] [maasRow] '' maas'' =
        Inr (Some ''| Title | Description |\<newline>|--|--|\<newline>| MAAS | Metal as a Service |'')
   \<and> \<not> prefix ''| Explain | Definition |'' ''| Title | Description |\<newline>|--|--|\<newline>| MAAS | Metal as a Service |''"
proof (intro conjI)
  show "normalized '' maas'' = normalized (orEmpty (cell ''Explain'' maasRow))" by code_simp
  show "fetchExplanation randomZero [] [maasRow] '' maas'' =
        Inr (Some ''| Title | Description |\<newline>|--|--|\<newline>| MAAS | Metal as a Service |'')"
    by code_simp
  show "\<not> prefix ''| Explain | Definition |'' ''| Title | Description |\<newline>|--|--|\<newline>| MAAS | Metal as a Service |''"
    by simp
qed

text \<open>The amended claim at the query \<open>"JUJU "\<close>, which matches the second row of two.\<close>

theorem explain_match_gives_table_witness:
  "normalized ''JUJU '' \<noteq> ''why''
   \<and> normalized (orEmpty (cell ''Explain'' jujuRow)) = normalized ''JUJU ''
   \<and> \<not> specMatchesNonEmptyToken ''JUJU '' maasRow
   \<and> cell ''Explain'' jujuRow = Some '' Juju''
   \<and> cell ''Definition'' jujuRow = Some ''An operator framework\<newline>''
   \<and> lineBreaks '' Juju'' \<le> 1 \<and> lineBreaks ''An operator framework\<newline>'' \<le> 1
   \<and> (\<exists>rest. fetchExplanation randomZero [] [maasRow, jujuRow] ''JUJU '' =
                Inr (Some (''| Title | Description |\<newline>|--|--|\<newline>| Juju | An operator framework |'' @ rest))
            \<and> (rest = [] \<or> hd rest = CHR ''\<newline>''))"
proof -
  have h: "normalized ''JUJU '' \<noteq> ''why''" by code_simp
  have m: "normalized (orEmpty (cell ''Explain'' jujuRow)) = normalized ''JUJU ''" by code_simp
  then have ex: "\<exists>r\<in>set [maasRow, jujuRow]. normalized (orEmpty (cell ''Explain'' r)) = normalized ''JUJU ''"
    by simp
  have nm: "\<not> specMatchesNonEmptyToken ''JUJU '' maasRow" by code_simp
  have c1: "cell ''Explain'' jujuRow = Some '' Juju''" by code_simp
  have c2: "cell ''Definition'' jujuRow = Some ''An operator framework\<newline>''" by code_simp
  have b1: "lineBreaks '' Juju'' \<le> 1" by code_simp
  have b2: "lineBreaks ''An operator framework\<newline>'' \<le> 1" by code_simp
  have s1: "specSanitize '' Juju'' = ''Juju''" by code_simp
  have s2: "specSanitize ''An operator framework\<newline>'' = ''An operator framework''" by code_simp
  from explain_match_gives_table[OF h ex, of randomZero "[]"]
  obtain pre r post where dec: "[maasRow, jujuRow] = pre @ r # post"
      "specMatchesNonEmptyToken ''JUJU '' r"
    and concl: "\<forall>e d. cell ''Explain'' r = Some e \<and> cell ''Definition'' r = Some d
                    \<and> lineBreaks e \<le> 1 \<and> lineBreaks d \<le> 1 \<longrightarrow>
                (\<exists>rest. fetchExplanation randomZero [] [maasRow, jujuRow] ''JUJU '' =
                           Inr (Some (''| Title | Description |\<newline>|--|--|\<newline>''
                                      @ ''| '' @ specSanitize e @ '' | '' @ specSanitize d @ '' |'' @ rest))
                       \<and> (rest = [] \<or> hd rest = CHR ''\<newline>''))"
    by blast
  from dec(1) have "r = maasRow \<or> r = jujuRow"
    by (cases pre) (auto simp: Cons_eq_append_conv)
  with dec(2) nm have "r = jujuRow" by blast
  with concl c1 c2 b1 b2
  have "\<exists>rest. fetchExplanation randomZero [] [maasRow, jujuRow] ''JUJU '' =
                           Inr (Some (''| Title | Description |\<newline>|--|--|\<newline>''
                                      @ ''| '' @ specSanitize '' Juju'' @ '' | '' @ specSanitize ''An operator framework\<newline>'' @ '' |'' @ rest))
                       \<and> (rest = [] \<or> hd rest = CHR ''\<newline>'')"
    by blast
  then have r: "\<exists>rest. fetchExplanation randomZero [] [maasRow, jujuRow] ''JUJU '' =
                Inr (Some (''| Title | Description |\<newline>|--|--|\<newline>| Juju | An operator framework |'' @ rest))
            \<and> (rest = [] \<or> hd rest = CHR ''\<newline>'')"
    by (simp add: s1 s2)
  show ?thesis
    by (intro conjI) (rule h m nm c1 c2 b1 b2 r)+
qed

section \<open>Sanitizing a cell\<close>

text \<open>
  C4 says that every line break is removed from a cell value, two or more included. The
  code removes the first one only (the pattern of \<open>replace\<close> has no \<open>g\<close> flag) and then
  trims: \<open>sanitizeValue\<close> turns \<open>"a\nb\nc"\<close> into \<open>"ab\nc"\<close>, where removing every line
  break gives \<open>"abc"\<close>, and a \<open>Definition\<close> of three lines leaves a line break inside its
  table cell.
\<close>

theorem sanitizeValue_keeps_later_line_breaks:
  "sanitizeValue (Some ''a\<newline>b\<newline>c'') = Inr ''ab\<newline>c''
   \<and> specSanitize ''a\<newline>b\<newline>c'' = ''abc''
   \<and> formatRowToMDTable noisyRow =
       Inr ''| Title | Description |\<newline>|--|--|\<newline>| LXD | line oneline two\<newline>line three |''"
proof (intro conjI)
  show "sanitizeValue (Some ''a\<newline>b\<newline>c'') = Inr ''ab\<newline>c''" by code_simp
  show "specSanitize ''a\<newline>b\<newline>c'' = ''abc''" by code_simp
  show "formatRowToMDTable noisyRow =
       Inr ''| Title | Description |\<newline>|--|--|\<newline>| LXD | line oneline two\<newline>line three |''"
    by code_simp
qed

section \<open>The optional fields\<close>

lemma optional_member:
  assumes "(label, name) \<in> set optionalColumns"
  shows "(Some label, cell name r) \<in> set (tl (tableRows r)) \<longleftrightarrow> specIncluded (cell name r)"
  using assms by (auto simp: tableRows_spec optionalColumns_def)

text \<open>
  C5: for every row, the rows pushed after the first are exactly the optional fields
  \<open>PM\<close>, \<open>Team\<close>, \<open>Contact\<close> and \<open>Link\<close>, in this order, whose value is present, non-empty
  and, trimmed and lower-cased, not \<open>n/a\<close>: each of the four appears if and only if its
  value is so, and the table printed for a row with \<open>Explain\<close> and \<open>Definition\<close> has one
  line for each of them and no other. In particular \<open>"N/A"\<close>, \<open>"n/a "\<close> and the empty
  string count as empty and are left out, while \<open>"0"\<close> does not and is shown.
\<close>

theorem optional_fields_shown_iff_included:
  "tl (tableRows r) =
     map (\<lambda>(label, name). (Some label, cell name r))
         (filter (\<lambda>(label, name). specIncluded (cell name r))
            [(''PM'', ''PM''), (''Team'', ''Team''), (''Contact channel'', ''Contact''), (''Read more'', ''Link'')])
   \<and> ((Some ''PM'', cell ''PM'' r) \<in> set (tl (tableRows r)) \<longleftrightarrow> specIncluded (cell ''PM'' r))
   \<and> ((Some ''Team'', cell ''Team'' r) \<in> set (tl (tableRows r)) \<longleftrightarrow> specIncluded (cell ''Team'' r))
   \<and> ((Some ''Contact channel'', cell ''Contact'' r) \<in> set (tl (tableRows r)) \<longleftrightarrow> specIncluded (cell ''Contact'' r))
   \<and> ((Some ''Read more'', cell ''Link'' r) \<in> set (tl (tableRows r)) \<longleftrightarrow> specIncluded (cell ''Link'' r))
   \<and> (cell ''Explain'' r = Some e \<and> cell ''Definition'' r = Some d \<longrightarrow>
        formatRowToMDTable r =
          Inr (mdHeader @ join ''\<newline>''
                 (lineOf e d # map (\<lambda>(label, name). lineOf label (orEmpty (cell name r)))
                     (filter (\<lambda>(label, name). specIncluded (cell name r))
                        [(''PM'', ''PM''), (''Team'', ''Team''), (''Contact channel'', ''Contact''), (''Read more'', ''Link'')]))))
   \<and> valueIsEmpty (Some ''N/A'') \<and> valueIsEmpty (Some ''n/a '') \<and> valueIsEmpty (Some '''')
   \<and> \<not> valueIsEmpty (Some ''0'')"
proof -
  have rows: "tl (tableRows r) =
     map (\<lambda>(label, name). (Some label, cell name r))
         (filter (\<lambda>(label, name). specIncluded (cell name r)) optionalColumns)"
    by (simp add: tableRows_spec)
  have pm: "(Some ''PM'', cell ''PM'' r) \<in> set (tl (tableRows r)) \<longleftrightarrow> specIncluded (cell ''PM'' r)"
    by (rule optional_member) (simp add: optionalColumns_def)
  have team: "(Some ''Team'', cell ''Team'' r) \<in> set (tl (tableRows r)) \<longleftrightarrow> specIncluded (cell ''Team'' r)"
    by (rule optional_member) (simp add: optionalColumns_def)
  have contact: "(Some ''Contact channel'', cell ''Contact'' r) \<in> set (tl (tableRows r)) \<longleftrightarrow> specIncluded (cell ''Contact'' r)"
    by (rule optional_member) (simp add: optionalColumns_def)
  have link: "(Some ''Read more'', cell ''Link'' r) \<in> set (tl (tableRows r)) \<longleftrightarrow> specIncluded (cell ''Link'' r)"
    by (rule optional_member) (simp add: optionalColumns_def)
  have fmt: "cell ''Explain'' r = Some e \<and> cell ''Definition'' r = Some d \<longrightarrow>
        formatRowToMDTable r =
          Inr (mdHeader @ join ''\<newline>''
                 (lineOf e d # map (\<lambda>(label, name). lineOf label (orEmpty (cell name r)))
                     (filter (\<lambda>(label, name). specIncluded (cell name r)) optionalColumns)))"
    using format_defined[of r e d] by blast
  have e1: "valueIsEmpty (Some ''N/A'')" by code_simp
  have e2: "valueIsEmpty (Some ''n/a '')" by code_simp
  have e3: "valueIsEmpty (Some '''')" by code_simp
  have e4: "\<not> valueIsEmpty (Some ''0'')" by code_simp
  show ?thesis
    using rows pm team contact link fmt e1 e2 e3 e4 unfolding optionalColumns_def by blast
qed

text \<open>A row with the four excluded and included values of the claim: only \<open>Link\<close>, with \<open>"0"\<close>, is shown.\<close>

theorem optional_fields_shown_iff_included_witness:
  "cell ''Explain'' jujuRow = Some '' Juju'' \<and> cell ''Definition'' jujuRow = Some ''An operator framework\<newline>''
   \<and> \<not> specIncluded (cell ''PM'' jujuRow) \<and> \<not> specIncluded (cell ''Team'' jujuRow)
   \<and> \<not> specIncluded (cell ''Contact'' jujuRow) \<and> specIncluded (cell ''Link'' jujuRow)
   \<and> tl (tableRows jujuRow) = [(Some ''Read more'', Some ''0'')]
   \<and> formatRowToMDTable jujuRow =
       Inr ''| Title | Description |\<newline>|--|--|\<newline>| Juju | An operator framework |\<newline>| Read more | 0 |''"
proof -
  have c: "cell ''Explain'' jujuRow = Some '' Juju'' \<and> cell ''Definition'' jujuRow = Some ''An operator framework\<newline>''"
    by code_simp
  have i: "\<not> specIncluded (cell ''PM'' jujuRow) \<and> \<not> specIncluded (cell ''Team'' jujuRow)
   \<and> \<not> specIncluded (cell ''Contact'' jujuRow) \<and> specIncluded (cell ''Link'' jujuRow)"
    by code_simp
  have l: "cell ''Link'' jujuRow = Some ''0''" by code_simp
  have ln: "lineOf '' Juju'' ''An operator framework\<newline>'' = ''| Juju | An operator framework |''"
     "lineOf ''Read more'' ''0'' = ''| Read more | 0 |''"
    by code_simp+
  from optional_fields_shown_iff_included[of jujuRow "'' Juju''" "''An operator framework\<newline>''"] c i l ln
  show ?thesis
    by (simp add: mdHeader_def orEmpty_def)
qed

section \<open>A query by alias\<close>

text \<open>
  C6, as amended: for every row list and every row \<open>R\<close> in it, if no row before \<open>R\<close>
  matches either query, a query \<open>q1\<close> that equals, normalized, one of the alias tokens of
  \<open>R\<close> gets the same result as a query \<open>q2\<close> that equals, normalized, the normalized
  \<open>Explain\<close> field of \<open>R\<close>, namely the formatting of \<open>R\<close>, provided that neither query
  normalizes to \<open>why\<close> and that \<open>q1\<close> does not normalize to the empty string.
\<close>

theorem alias_query_same_as_explain_query:
  assumes "rows = pre @ R # post"
    and "\<forall>x\<in>set pre. \<not> specMatches q1 x \<and> \<not> specMatches q2 x"
    and "normalized q1 \<in> set (specAliasTokens R)"
    and "normalized q2 = normalized (orEmpty (cell ''Explain'' R))"
    and "normalized q1 \<noteq> ''why''" and "normalized q2 \<noteq> ''why''"
    and "normalized q1 \<noteq> []"
  shows "fetchExplanation u whyRows rows q1 = fetchExplanation u whyRows rows q2
       \<and> fetchExplanation u whyRows rows q2 =
           (case formatRowToMDTable R of Inl e \<Rightarrow> Inl e | Inr t \<Rightarrow> Inr (Some t))"
proof -
  have pre1: "\<forall>x\<in>set pre. \<not> rowMatches q1 x" and pre2: "\<forall>x\<in>set pre. \<not> rowMatches q2 x"
    using assms(2) specMatches_weaken by (auto simp: rowMatches_spec)
  have m1: "rowMatches q1 R"
    using assms(3,7) by (simp add: rowMatches_spec specMatchesNonEmptyToken_def)
  have m2: "rowMatches q2 R"
    using assms(4) by (simp add: rowMatches_spec specMatchesNonEmptyToken_def)
  have f1: "find (rowMatches q1) rows = Some R"
    by (rule find_first[OF assms(1) pre1 m1])
  have f2: "find (rowMatches q2) rows = Some R"
    by (rule find_first[OF assms(1) pre2 m2])
  show ?thesis
    by (simp add: fetch_lookup[OF assms(5)] fetch_lookup[OF assms(6)] f1 f2)
qed

text \<open>
  C6 as stated covers an alias token \<open>why\<close>. The row \<open>jujuRow\<close> is the only row, has the
  alias token \<open>why\<close> and the \<open>Explain\<close> field \<open>Juju\<close>, and matches both queries; the query
  \<open>why\<close> is answered from the sheet \<open>Why\<close>, the query \<open>juju\<close> with the table of the row.
\<close>

theorem alias_query_why_counterexample:
  "normalized ''why'' \<in> set (specAliasTokens jujuRow)
   \<and> normalized ''juju'' = normalized (orEmpty (cell ''Explain'' jujuRow))
   \<and> specMatches ''why'' jujuRow \<and> specMatches ''juju'' jujuRow
   \<and> fetchExplanation sevenTenths whySheet [jujuRow] ''why'' = Inr (Some ''Because.'')
   \<and> fetchExplanation sevenTenths whySheet [jujuRow] ''juju'' =
       Inr (Some ''| Title | Description |\<newline>|--|--|\<newline>| Juju | An operator framework |\<newline>| Read more | 0 |'')
   \<and> fetchExplanation sevenTenths whySheet [jujuRow] ''why'' \<noteq> fetchExplanation sevenTenths whySheet [jujuRow] ''juju''"
proof -
  have a: "normalized ''why'' \<in> set (specAliasTokens jujuRow)" by code_simp
  have b: "normalized ''juju'' = normalized (orEmpty (cell ''Explain'' jujuRow))" by code_simp
  have c: "specMatches ''why'' jujuRow" "specMatches ''juju'' jujuRow" by code_simp+
  have w: "normalized ''why'' = ''why''" by code_simp
  have n: "length whySheet = 2" by (simp add: whySheet_def)
  have d: "fetchExplanation sevenTenths whySheet [jujuRow] ''why'' = Inr (Some ''Because.'')"
    unfolding fetch_why[OF w] n sevenTenths_of_three by (simp add: whySheet_def cell_def)
  have j: "normalized ''juju'' \<noteq> ''why''" by code_simp
  have rm: "rowMatches ''juju'' jujuRow" by code_simp
  have fj: "find (rowMatches ''juju'') [jujuRow] = Some jujuRow"
    using rm by simp
  have t: "formatRowToMDTable jujuRow =
      Inr ''| Title | Description |\<newline>|--|--|\<newline>| Juju | An operator framework |\<newline>| Read more | 0 |''"
    by code_simp
  have e: "fetchExplanation sevenTenths whySheet [jujuRow] ''juju'' =
       Inr (Some ''| Title | Description |\<newline>|--|--|\<newline>| Juju | An operator framework |\<newline>| Read more | 0 |'')"
    by (simp add: fetch_lookup[OF j] rm t)
  show ?thesis using a b c d e by simp
qed

text \<open>The amended claim at the alias \<open>Charms\<close> and the name \<open>" juju "\<close> of the second row of two.\<close>

theorem alias_query_same_as_explain_query_witness:
  "[maasRow, jujuRow] = [maasRow] @ jujuRow # []
   \<and> \<not> specMatches ''Charms'' maasRow \<and> \<not> specMatches '' juju '' maasRow
   \<and> normalized ''Charms'' \<in> set (specAliasTokens jujuRow)
   \<and> normalized '' juju '' = normalized (orEmpty (cell ''Explain'' jujuRow))
   \<and> normalized ''Charms'' \<noteq> ''why'' \<and> normalized '' juju '' \<noteq> ''why'' \<and> normalized ''Charms'' \<noteq> []
   \<and> fetchExplanation randomZero [] [maasRow, jujuRow] ''Charms'' = fetchExplanation randomZero [] [maasRow, jujuRow] '' juju ''
   \<and> fetchExplanation randomZero [] [maasRow, jujuRow] '' juju '' =
       Inr (Some ''| Title | Description |\<newline>|--|--|\<newline>| Juju | An operator framework |\<newline>| Read more | 0 |'')"
proof -
  have s: "[maasRow, jujuRow] = [maasRow] @ jujuRow # []" by simp
  have p1: "\<not> specMatches ''Charms'' maasRow" and p2: "\<not> specMatches '' juju '' maasRow"
    by code_simp+
  then have p: "\<forall>x\<in>set [maasRow]. \<not> specMatches ''Charms'' x \<and> \<not> specMatches '' juju '' x"
    by simp
  have a: "normalized ''Charms'' \<in> set (specAliasTokens jujuRow)" by code_simp
  have b: "normalized '' juju '' = normalized (orEmpty (cell ''Explain'' jujuRow))" by code_simp
  have n1: "normalized ''Charms'' \<noteq> ''why''" by code_simp
  have n2: "normalized '' juju '' \<noteq> ''why''" by code_simp
  have n3: "normalized ''Charms'' \<noteq> []" by code_simp
  have t: "formatRowToMDTable jujuRow =
      Inr ''| Title | Description |\<newline>|--|--|\<newline>| Juju | An operator framework |\<newline>| Read more | 0 |''"
    by code_simp
  note r = alias_query_same_as_explain_query[OF s p a b n1 n2 n3, of randomZero "[]"]
  have eq: "fetchExplanation randomZero [] [maasRow, jujuRow] ''Charms'' = fetchExplanation randomZero [] [maasRow, jujuRow] '' juju ''"
    using r by (rule conjunct1)
  have "fetchExplanation randomZero [] [maasRow, jujuRow] '' juju '' =
          (case formatRowToMDTable jujuRow of Inl e \<Rightarrow> Inl e | Inr t \<Rightarrow> Inr (Some t))"
    using r by (rule conjunct2)
  then have val: "fetchExplanation randomZero [] [maasRow, jujuRow] '' juju '' =
       Inr (Some ''| Title | Description |\<newline>|--|--|\<newline>| Juju | An operator framework |\<newline>| Read more | 0 |'')"
    by (simp only: t sum.case)
  show ?thesis
    by (intro conjI) (rule s p1 p2 a b n1 n2 n3 eq val)+
qed

section \<open>The token check\<close>

text \<open>
  C7: for every POST to \<open>/hubot/meet\<close> or \<open>/hubot/explain\<close> whose token differs from the
  secret configured for that command, the handler answers with status 401 and makes no
  call at all, to the spreadsheet, to the link generation or to the logger. The answer is
  the same whatever the text of the body and the state of the spreadsheet are: nothing
  else of the request is looked at before.
\<close>

theorem mismatched_token_unauthorized:
  "(secretMeet \<noteq> body_token body \<longrightarrow>
      postMeet secretMeet body = ([], Some \<lparr>status = 401, content = Plain ''Unauthorized''\<rparr>))
   \<and> (secretExplain \<noteq> body_token body \<longrightarrow>
      postExplain secretExplain u whyRows rows body =
        ([], Some \<lparr>status = 401, content = Json [(''error'', Some ''Unauthorized'')]\<rparr>))"
  by (simp add: postMeet_def postExplain_def)

text \<open>A wrong token on both paths, and the calls that the right token lets through.\<close>

theorem mismatched_token_unauthorized_witness:
  "Some ''s3cret'' \<noteq> body_token \<lparr>body_token = Some ''guess'', body_text = Some ''@a @b''\<rparr>
   \<and> postMeet (Some ''s3cret'') \<lparr>body_token = Some ''guess'', body_text = Some ''@a @b''\<rparr>
        = ([], Some \<lparr>status = 401, content = Plain ''Unauthorized''\<rparr>)
   \<and> postExplain (Some ''s3cret'') randomZero whySheet [maasRow] \<lparr>body_token = Some ''guess'', body_text = Some ''@a @b''\<rparr>
        = ([], Some \<lparr>status = 401, content = Json [(''error'', Some ''Unauthorized'')]\<rparr>)
   \<and> fst (postMeet (Some ''s3cret'') \<lparr>body_token = Some ''s3cret'', body_text = Some ''@a @b''\<rparr>)
        = [LoggerInfo ''Meet participants: @a @b'', MeetLinkGeneration ''@a @b'']"
proof -
  have h: "Some ''s3cret'' \<noteq> body_token \<lparr>body_token = Some ''guess'', body_text = Some ''@a @b''\<rparr>"
    by simp
  have ok: "fst (postMeet (Some ''s3cret'') \<lparr>body_token = Some ''s3cret'', body_text = Some ''@a @b''\<rparr>)
        = [LoggerInfo ''Meet participants: @a @b'', MeetLinkGeneration ''@a @b'']"
    by code_simp
  from mismatched_token_unauthorized[of "Some ''s3cret''" "\<lparr>body_token = Some ''guess'', body_text = Some ''@a @b''\<rparr>"
      "Some ''s3cret''" randomZero whySheet "[maasRow]"] h ok
  show ?thesis by blast
qed

section \<open>Starting without the meet token\<close>

text \<open>
  C9 says that a start with a required key missing, a command's token among them, aborts
  with a diagnostic. With \<open>MATTERMOST_TOKEN_CMD_MEET\<close> missing, the meet script prints the
  diagnostic and goes on: the handlers are registered with an undefined secret, and a
  POST without a token then passes the token check and gets its link.
\<close>

theorem meet_start_without_token_goes_on:
  "meetStartup Map.empty = Registered [''Missing MATTERMOST_TOKEN_CMD_MEET in environment''] None
   \<and> postMeet None \<lparr>body_token = None, body_text = Some ''@a @b''\<rparr> =
       ([LoggerInfo ''Meet participants: @a @b'', MeetLinkGeneration ''@a @b''],
        Some \<lparr>status = 200,
              content = Json [(''response_type'', Some ''in_channel''),
                              (''icon_url'', Some ''https://assets.ubuntu.com/v1/fa583301-meet-bot-logo.png''),
                              (''text'', Some ''Your Meet is ready: https://g.co/meet/a-b @a @b'')]\<rparr>)"
proof (intro conjI)
  show "meetStartup Map.empty = Registered [''Missing MATTERMOST_TOKEN_CMD_MEET in environment''] None"
    by (simp add: meetStartup_def truthy_def)
  show "postMeet None \<lparr>body_token = None, body_text = Some ''@a @b''\<rparr> =
       ([LoggerInfo ''Meet participants: @a @b'', MeetLinkGeneration ''@a @b''],
        Some \<lparr>status = 200,
              content = Json [(''response_type'', Some ''in_channel''),
                              (''icon_url'', Some ''https://assets.ubuntu.com/v1/fa583301-meet-bot-logo.png''),
                              (''text'', Some ''Your Meet is ready: https://g.co/meet/a-b @a @b'')]\<rparr>)"
    by code_simp
qed


section \<open>The matcher and the language of a pattern\<close>

lemma nullable_lang: "nullable r \<longleftrightarrow> [] \<in> lang r"
  by (induction r) (auto intro: star.star_nil)

lemma star_Cons_elim:
  assumes "x \<in> star A" "x = c # s"
  shows "\<exists>u v. s = u @ v \<and> c # u \<in> A \<and> v \<in> star A"
  using assms
proof (induction arbitrary: s rule: star.induct)
  case star_nil
  then show ?case by simp
next
  case (star_step u v)
  show ?case
  proof (cases u)
    case Nil
    with star_step show ?thesis by simp
  next
    case (Cons a u')
    with star_step.prems have "a = c" "s = u' @ v" by simp_all
    with star_step.hyps(1,2) Cons show ?thesis by blast
  qed
qed

lemma star_Cons: "c # s \<in> star A \<longleftrightarrow> (\<exists>u v. s = u @ v \<and> c # u \<in> A \<and> v \<in> star A)"
proof
  assume "c # s \<in> star A"
  then show "\<exists>u v. s = u @ v \<and> c # u \<in> A \<and> v \<in> star A"
    by (rule star_Cons_elim) simp
next
  assume "\<exists>u v. s = u @ v \<and> c # u \<in> A \<and> v \<in> star A"
  then obtain u v where "s = u @ v" "c # u \<in> A" "v \<in> star A" by blast
  then show "c # s \<in> star A"
    using star.star_step[of "c # u" A v] by simp
qed

lemma lang_SeqI: "u \<in> lang a \<Longrightarrow> v \<in> lang b \<Longrightarrow> u @ v \<in> lang (Seq a b)"
  by auto

lemma lang_deriv: "s \<in> lang (deriv c r) \<longleftrightarrow> c # s \<in> lang r"
proof (induction r arbitrary: s)
  case (Seq a b)
  show ?case
  proof
    assume "s \<in> lang (deriv c (Seq a b))"
    then consider (left) u v where "s = u @ v" "u \<in> lang (deriv c a)" "v \<in> lang b"
      | (right) "nullable a" "s \<in> lang (deriv c b)"
      by (auto split: if_splits)
    then show "c # s \<in> lang (Seq a b)"
    proof cases
      case left
      then have "c # u \<in> lang a" using Seq.IH(1) by simp
      with left have "(c # u) @ v \<in> lang (Seq a b)" by (intro lang_SeqI)
      with left show ?thesis by simp
    next
      case right
      then have "[] \<in> lang a" "c # s \<in> lang b" using Seq.IH(2) nullable_lang by simp_all
      then have "[] @ (c # s) \<in> lang (Seq a b)" by (intro lang_SeqI)
      then show ?thesis by simp
    qed
  next
    assume "c # s \<in> lang (Seq a b)"
    then obtain u v where uv: "c # s = u @ v" "u \<in> lang a" "v \<in> lang b" by auto
    show "s \<in> lang (deriv c (Seq a b))"
    proof (cases u)
      case Nil
      with uv have "nullable a" "s \<in> lang (deriv c b)"
        using Seq.IH(2) nullable_lang by simp_all
      then show ?thesis by simp
    next
      case (Cons x u')
      with uv have "x = c" "s = u' @ v" by simp_all
      with uv Cons have "u' \<in> lang (deriv c a)" using Seq.IH(1) by simp
      with \<open>s = u' @ v\<close> uv(3) show ?thesis by auto
    qed
  qed
next
  case (Star a)
  show ?case
    by (auto simp: star_Cons Star.IH)
qed auto

lemma matchesWhole_lang: "matchesWhole r s \<longleftrightarrow> s \<in> lang r"
  by (induction s arbitrary: r) (simp_all add: nullable_lang lang_deriv)

lemma canonicalize_hyphen: "canonicalize c = canonicalize CHR ''-'' \<longleftrightarrow> c = CHR ''-''"
  using of_char_lt256[of c]
  by (auto simp: canonicalize_def Let_def char_of_eq_iff char_eq_nat[of c] take_bit_eq_mod)

lemma canonicalize_h: "canonicalize c = canonicalize CHR ''h'' \<longleftrightarrow> lowerChar c = CHR ''h''"
  using of_char_lt256[of c]
  by (auto simp: canonicalize_def lowerChar_def Let_def char_of_eq_iff char_eq_nat[of c] take_bit_eq_mod)

lemma canonicalize_e: "canonicalize c = canonicalize CHR ''e'' \<longleftrightarrow> lowerChar c = CHR ''e''"
  using of_char_lt256[of c]
  by (auto simp: canonicalize_def lowerChar_def Let_def char_of_eq_iff char_eq_nat[of c] take_bit_eq_mod)

lemma canonicalize_l: "canonicalize c = canonicalize CHR ''l'' \<longleftrightarrow> lowerChar c = CHR ''l''"
  using of_char_lt256[of c]
  by (auto simp: canonicalize_def lowerChar_def Let_def char_of_eq_iff char_eq_nat[of c] take_bit_eq_mod)

lemma canonicalize_p: "canonicalize c = canonicalize CHR ''p'' \<longleftrightarrow> lowerChar c = CHR ''p''"
  using of_char_lt256[of c]
  by (auto simp: canonicalize_def lowerChar_def Let_def char_of_eq_iff char_eq_nat[of c] take_bit_eq_mod)

lemma lowerChar_hyphen: "lowerChar CHR ''-'' = CHR ''-''"
  by code_simp

lemma star_hyphens: "s \<in> star {[CHR ''-'']} \<longleftrightarrow> set s \<subseteq> {CHR ''-''}"
proof
  assume "s \<in> star {[CHR ''-'']}"
  then show "set s \<subseteq> {CHR ''-''}"
    by (induction rule: star.induct) auto
next
  assume "set s \<subseteq> {CHR ''-''}"
  then show "s \<in> star {[CHR ''-'']}"
  proof (induction s)
    case Nil
    show ?case by (rule star.star_nil)
  next
    case (Cons a s)
    then have "a = CHR ''-''" "s \<in> star {[CHR ''-'']}" by simp_all
    then show ?case using star.star_step[of "[CHR ''-'']" "{[CHR ''-'']}" s] by simp
  qed
qed

lemma lang_hyphen: "lang (Chr CHR ''-'') = {[CHR ''-'']}"
  by (auto simp: canonicalize_hyphen)

lemma lang_help_tail:
  "v \<in> lang (Seq (Chr CHR ''h'') (Opt (Seq (Chr CHR ''e'') (Seq (Chr CHR ''l'') (Chr CHR ''p'')))))
   \<longleftrightarrow> toLowerCase v = ''h'' \<or> toLowerCase v = ''help''"
  (is "v \<in> lang (Seq ?h (Opt ?elp)) \<longleftrightarrow> ?R")
proof
  assume "v \<in> lang (Seq ?h (Opt ?elp))"
  then show ?R
    by (auto simp: Opt_def canonicalize_h canonicalize_e canonicalize_l canonicalize_p toLowerCase_def)
next
  assume ?R
  then consider (short) z where "v = [z]" "lowerChar z = CHR ''h''"
    | (long) z za zb zc where "v = [z, za, zb, zc]" "lowerChar z = CHR ''h''"
        "lowerChar za = CHR ''e''" "lowerChar zb = CHR ''l''" "lowerChar zc = CHR ''p''"
    by (auto simp: toLowerCase_def)
  then show "v \<in> lang (Seq ?h (Opt ?elp))"
  proof cases
    case short
    have "[z] \<in> lang ?h" using short(2) by (simp add: canonicalize_h)
    moreover have "[] \<in> lang (Opt ?elp)" by (simp add: Opt_def)
    ultimately have "[z] @ [] \<in> lang (Seq ?h (Opt ?elp))" by (rule lang_SeqI)
    then show ?thesis using short(1) by simp
  next
    case long
    have "[zb] @ [zc] \<in> lang (Seq (Chr CHR ''l'') (Chr CHR ''p''))"
      using long(4,5) by (intro lang_SeqI) (simp_all add: canonicalize_l canonicalize_p)
    moreover have "[za] \<in> lang (Chr CHR ''e'')" using long(3) by (simp add: canonicalize_e)
    ultimately have "[za] @ ([zb] @ [zc]) \<in> lang ?elp" by (rule lang_SeqI[rotated])
    then have "[za] @ ([zb] @ [zc]) \<in> lang (Opt ?elp)" by (simp add: Opt_def)
    moreover have "[z] \<in> lang ?h" using long(2) by (simp add: canonicalize_h)
    ultimately have "[z] @ ([za] @ ([zb] @ [zc])) \<in> lang (Seq ?h (Opt ?elp))" by (rule lang_SeqI[rotated])
    then show ?thesis using long(1) by simp
  qed
qed

lemma help_word_no_hyphen:
  assumes "toLowerCase v = ''h'' \<or> toLowerCase v = ''help''"
  shows "dropWhile (\<lambda>c. c = CHR ''-'') v = v"
proof -
  from assms obtain c w where v: "v = c # w" "lowerChar c = CHR ''h''"
    by (auto simp: toLowerCase_def)
  then have "c \<noteq> CHR ''-''" using lowerChar_hyphen by auto
  with v show ?thesis by simp
qed

lemma helpPattern_spec: "matchesWhole helpPattern s \<longleftrightarrow> specHelpWord s"
proof
  assume "matchesWhole helpPattern s"
  then obtain u v where uv: "s = u @ v" "set u \<subseteq> {CHR ''-''}"
      "toLowerCase v = ''h'' \<or> toLowerCase v = ''help''"
    unfolding matchesWhole_lang helpPattern_def lang.simps(4)[of "Star (Chr CHR ''-'')"]
      lang.simps(6) lang_hyphen star_hyphens lang_help_tail
    by blast
  then have "dropWhile (\<lambda>c. c = CHR ''-'') s = dropWhile (\<lambda>c. c = CHR ''-'') v"
    by (auto simp: dropWhile_append)
  also have "\<dots> = v" by (rule help_word_no_hyphen[OF uv(3)])
  finally show "specHelpWord s"
    using uv(3) by (simp add: specHelpWord_def)
next
  assume a: "specHelpWord s"
  let ?P = "\<lambda>c. c = CHR ''-''"
  have "s = takeWhile ?P s @ dropWhile ?P s" by simp
  moreover have "set (takeWhile ?P s) \<subseteq> {CHR ''-''}"
    using set_takeWhileD by fastforce
  moreover have "toLowerCase (dropWhile ?P s) = ''h'' \<or> toLowerCase (dropWhile ?P s) = ''help''"
    using a by (simp add: specHelpWord_def Let_def)
  ultimately show "matchesWhole helpPattern s"
    unfolding matchesWhole_lang helpPattern_def lang.simps(4)[of "Star (Chr CHR ''-'')"]
      lang.simps(6) lang_hyphen star_hyphens lang_help_tail
    by blast
qed

section \<open>The help request\<close>

text \<open>
  C10: for every POST to \<open>/hubot/explain\<close> with the valid token, the handler answers with
  the usage message and makes no call, so does not contact the spreadsheet, whenever the
  text is absent or empty or its trimmed value is a help word: any number of leading
  hyphens followed by \<open>h\<close> or \<open>help\<close>, in any mix of cases. Any other text goes to the
  lookup. The pattern of the code accepts \<open>H\<close>, \<open>-h\<close>, \<open>--help\<close> and \<open>-hElP\<close> and rejects
  \<open>hh\<close> and \<open>helps\<close>.
\<close>

theorem explain_help_request_gets_usage:
  assumes "secret = body_token body"
  shows "(specHelpRequest (body_text body) \<longrightarrow>
            postExplain secret u whyRows rows body =
              ([], Some \<lparr>status = 200,
                          content = Json [(''response_type'', Some ''ephemeral''), (''text'', Some usage)]\<rparr>))
       \<and> (\<not> specHelpRequest (body_text body) \<longrightarrow>
            (\<exists>t. body_text body = Some t
               \<and> fst (postExplain secret u whyRows rows body) = [LoggerInfo ('': '' @ t), SpreadsheetLookup t]))
       \<and> matchesWhole helpPattern ''H'' \<and> matchesWhole helpPattern ''-h''
       \<and> matchesWhole helpPattern ''--help'' \<and> matchesWhole helpPattern ''-hElP''
       \<and> \<not> matchesWhole helpPattern ''hh'' \<and> \<not> matchesWhole helpPattern ''helps''"
proof -
  have first: "specHelpRequest (body_text body) \<longrightarrow>
            postExplain secret u whyRows rows body =
              ([], Some \<lparr>status = 200,
                          content = Json [(''response_type'', Some ''ephemeral''), (''text'', Some usage)]\<rparr>)"
    using assms
    by (auto simp: postExplain_def specHelpRequest_def helpPattern_spec split: option.splits)
  have other: "\<not> specHelpRequest (body_text body) \<longrightarrow>
            (\<exists>t. body_text body = Some t
               \<and> fst (postExplain secret u whyRows rows body) = [LoggerInfo ('': '' @ t), SpreadsheetLookup t])"
    using assms
    by (auto simp: postExplain_def specHelpRequest_def helpPattern_spec split: option.splits sum.splits)
  have yes: "matchesWhole helpPattern ''H''" "matchesWhole helpPattern ''-h''"
      "matchesWhole helpPattern ''--help''" "matchesWhole helpPattern ''-hElP''"
    by code_simp+
  have no: "\<not> matchesWhole helpPattern ''hh''" "\<not> matchesWhole helpPattern ''helps''"
    by code_simp+
  show ?thesis using first other yes no by blast
qed

text \<open>The claim at the text \<open>" --HELP "\<close>, and at \<open>helps\<close>, which is looked up.\<close>

theorem explain_help_request_gets_usage_witness:
  "Some ''s3cret'' = body_token \<lparr>body_token = Some ''s3cret'', body_text = Some '' --HELP ''\<rparr>
   \<and> specHelpRequest (body_text \<lparr>body_token = Some ''s3cret'', body_text = Some '' --HELP ''\<rparr>)
   \<and> postExplain (Some ''s3cret'') randomZero whySheet [maasRow] \<lparr>body_token = Some ''s3cret'', body_text = Some '' --HELP ''\<rparr> =
        ([], Some \<lparr>status = 200,
                    content = Json [(''response_type'', Some ''ephemeral''), (''text'', Some usage)]\<rparr>)
   \<and> \<not> specHelpRequest (body_text \<lparr>body_token = Some ''s3cret'', body_text = Some ''helps''\<rparr>)
   \<and> fst (postExplain (Some ''s3cret'') randomZero whySheet [maasRow] \<lparr>body_token = Some ''s3cret'', body_text = Some ''helps''\<rparr>)
        = [LoggerInfo '': helps'', SpreadsheetLookup ''helps'']"
proof -
  let ?b1 = "\<lparr>body_token = Some ''s3cret'', body_text = Some '' --HELP ''\<rparr>"
  let ?b2 = "\<lparr>body_token = Some ''s3cret'', body_text = Some ''helps''\<rparr>"
  have t1: "Some ''s3cret'' = body_token ?b1" and t2: "Some ''s3cret'' = body_token ?b2"
    by simp_all
  have h1: "specHelpRequest (body_text ?b1)" by code_simp
  have h2: "\<not> specHelpRequest (body_text ?b2)" by code_simp
  note r1 = explain_help_request_gets_usage[OF t1, of randomZero whySheet "[maasRow]"]
  note r2 = explain_help_request_gets_usage[OF t2, of randomZero whySheet "[maasRow]"]
  have a: "postExplain (Some ''s3cret'') randomZero whySheet [maasRow] ?b1 =
        ([], Some \<lparr>status = 200,
                    content = Json [(''response_type'', Some ''ephemeral''), (''text'', Some usage)]\<rparr>)"
    using r1 h1 by blast
  have "\<exists>t. body_text ?b2 = Some t
          \<and> fst (postExplain (Some ''s3cret'') randomZero whySheet [maasRow] ?b2) = [LoggerInfo ('': '' @ t), SpreadsheetLookup t]"
    using r2 h2 by blast
  then have b: "fst (postExplain (Some ''s3cret'') randomZero whySheet [maasRow] ?b2)
        = [LoggerInfo '': helps'', SpreadsheetLookup ''helps'']"
    by auto
  show ?thesis
    by (intro conjI) (rule t1 h1 a h2 b)+
qed

end
